theory Spec2Isabelle
  imports Main "HOL-Library.Word"
begin

section \<open>License Key Manager CLI (src/main.js)\<close>

text \<open>
  A shallow embedding of \<^verbatim>\<open>src/main.js\<close>. JavaScript strings are modelled as
  \<^typ>\<open>string\<close>, a \<^verbatim>\<open>Buffer\<close> as a list of bytes. The collaborators the file
  calls but does not define (the \<^verbatim>\<open>crypto\<close> module, \<^verbatim>\<open>node-machine-id\<close>, the
  \<^verbatim>\<open>Date\<close> parser and the system clock) are the fields of a \<open>runtime\<close> record;
  every call to one of them that has an effect is appended to a call log that the
  functions pass along, so the order of the effects can be stated.

  Characters are the 8-bit characters of \<^typ>\<open>char\<close>; a JavaScript string with a code
  unit above 255 is outside the model (no character class of the two patterns contains
  such a unit). The hash functions are total: every string has a digest. Of the calls
  that can throw, the model has two: reading the machine identifier and drawing random
  bytes.
\<close>

subsection \<open>Runtime, effects and errors\<close>

type_synonym byte = "8 word"

record runtime =
  date_parse :: "string \<Rightarrow> int option"
  date_now :: int
  machine_id :: "string + string"
  random_bytes :: "nat \<Rightarrow> byte list option"
  sha256 :: "string \<Rightarrow> byte list"
  md5 :: "string \<Rightarrow> byte list"

text \<open>
  \<^item> \<open>date_parse rt s\<close> is the time value of \<^verbatim>\<open>new Date(s)\<close> in milliseconds,
    \<open>None\<close> for \<^verbatim>\<open>NaN\<close> (an invalid date);
  \<^item> \<open>date_now rt\<close> is the time value of \<^verbatim>\<open>new Date()\<close>;
  \<^item> \<open>machine_id rt\<close> is what \<^verbatim>\<open>machineIdSync()\<close> returns, \<open>Inl msg\<close> when it throws
    an error with message \<open>msg\<close>;
  \<^item> \<open>random_bytes rt n\<close> is what \<^verbatim>\<open>crypto.randomBytes(n)\<close> returns, \<open>None\<close> when it
    throws;
  \<^item> \<open>sha256 rt s\<close> and \<open>md5 rt s\<close> are the raw digests of the string \<open>s\<close>, as
    \<^verbatim>\<open>createHash(alg).update(s).digest()\<close> computes them.
\<close>

datatype call =
  ReadClock
  | ReadMachineId
  | DrawRandom nat
  | HashSha256 string
  | HashMd5 string

datatype error =
  InvalidDomain
  | InvalidExpiration
  | MachineIdError string
  | KeyGenerationFailed
  | MalformedKey
  | ChecksumMismatch

text \<open>The message of the \<^verbatim>\<open>Error\<close> object thrown for each kind.\<close>

fun message :: "error \<Rightarrow> string" where
  "message InvalidDomain = ''Invalid domain format''"
| "message InvalidExpiration =
     ''Invalid expiration date. Use format YYYY-MM-DD and date must be in the future''"
| "message (MachineIdError msg) = msg"
| "message KeyGenerationFailed = ''Failed to generate license key''"
| "message MalformedKey = ''Invalid license key format''"
| "message ChecksumMismatch = ''Invalid license key: checksum mismatch''"

subsection \<open>Hexadecimal encoding and splitting\<close>

text \<open>\<^verbatim>\<open>buffer.toString('hex')\<close>: two lowercase hexadecimal digits per byte.\<close>

definition hexchars :: string where
  "hexchars = ''0123456789abcdef''"

definition hexdigit :: "nat \<Rightarrow> char" where
  "hexdigit n = hexchars ! n"

definition hex_byte :: "byte \<Rightarrow> string" where
  "hex_byte b = [hexdigit (unat b div 16), hexdigit (unat b mod 16)]"

definition toHex :: "byte list \<Rightarrow> string" where
  "toHex bs = concat (map hex_byte bs)"

definition is_lower_hex :: "string \<Rightarrow> bool" where
  "is_lower_hex s = list_all (\<lambda>c. c \<in> set hexchars) s"

text \<open>
  \<^verbatim>\<open>s.split(d)\<close> for a one-character separator: the pieces between the occurrences
  of \<open>d\<close>, empty pieces included; a string without \<open>d\<close> is one piece. The recursive
  call never returns the empty list, so the last branch is never taken.
\<close>

fun str_split :: "char \<Rightarrow> string \<Rightarrow> string list" where
  "str_split d [] = [[]]"
| "str_split d (c # cs) =
     (if c = d then [] # str_split d cs
      else (case str_split d cs of
              p # ps \<Rightarrow> (c # p) # ps
            | [] \<Rightarrow> [[c]]))"

subsection \<open>Regular expressions\<close>

text \<open>
  The two patterns of the file use character classes, literal characters, sequencing and
  counted repetition (\<^verbatim>\<open>{m,n}\<close>, \<^verbatim>\<open>{m,}\<close>, \<^verbatim>\<open>+\<close>). Both start with
  \<^verbatim>\<open>^\<close>, end with \<^verbatim>\<open>$\<close> and carry no flag, so \<^verbatim>\<open>test\<close> asks whether the whole
  string matches. A class is a list of character ranges (bounds included), compared by
  character code; \<open>Repeat m None r\<close> is \<^verbatim>\<open>r{m,}\<close> and \<open>Repeat m (Some n) r\<close> is
  \<^verbatim>\<open>r{m,n}\<close>.
\<close>

datatype regex =
  Class "(char \<times> char) list"
  | Seq regex regex
  | Repeat nat "nat option" regex

definition in_class :: "(char \<times> char) list \<Rightarrow> char \<Rightarrow> bool" where
  "in_class rs c =
     list_ex (\<lambda>(lo, hi). (of_char lo :: nat) \<le> of_char c \<and> (of_char c :: nat) \<le> of_char hi) rs"

text \<open>
  \<open>repeat f m n s\<close>: the string \<open>s\<close> is a concatenation of \<open>k\<close> pieces that each satisfy
  \<open>f\<close>, for some \<open>k\<close> from \<open>m\<close> up to the bound \<open>n\<close>. A non-empty string is cut after
  a non-empty first piece; empty pieces only matter for the count, at the end.
\<close>

function repeat :: "(string \<Rightarrow> bool) \<Rightarrow> nat \<Rightarrow> nat option \<Rightarrow> string \<Rightarrow> bool" where
  "repeat f m n s =
     (if n = Some 0 then m = 0 \<and> s = []
      else if s = [] then m = 0 \<or> f []
      else list_ex
             (\<lambda>i. if f (take (Suc i) s)
                  then repeat f (m - 1) (map_option (\<lambda>k. k - 1) n) (drop (Suc i) s)
                  else False)
             [0..<length s])"
  by pat_completeness auto
termination
  by (relation "measure (\<lambda>(f, m, n, s). length s)") auto

declare repeat.simps [simp del]

primrec matches :: "regex \<Rightarrow> string \<Rightarrow> bool" where
  "matches (Class rs) s = (case s of [c] \<Rightarrow> in_class rs c | _ \<Rightarrow> False)"
| "matches (Seq r1 r2) s =
     list_ex (\<lambda>i. if matches r1 (take i s) then matches r2 (drop i s) else False)
       [0..<Suc (length s)]"
| "matches (Repeat m n r) s = repeat (matches r) m n s"

definition Lit :: "char \<Rightarrow> regex" where
  "Lit c = Class [(c, c)]"

definition regex_test :: "regex \<Rightarrow> string \<Rightarrow> bool" where
  "regex_test r s = matches r s"

text \<open>The classes \<^verbatim>\<open>[a-zA-Z0-9]\<close>, \<^verbatim>\<open>[a-zA-Z0-9-]\<close>, \<^verbatim>\<open>[a-zA-Z]\<close> and \<^verbatim>\<open>\d\<close>.\<close>

definition alnum :: "(char \<times> char) list" where
  "alnum = [(CHR ''a'', CHR ''z''), (CHR ''A'', CHR ''Z''), (CHR ''0'', CHR ''9'')]"

definition alnum_hyphen :: "(char \<times> char) list" where
  "alnum_hyphen =
     [(CHR ''a'', CHR ''z''), (CHR ''A'', CHR ''Z''), (CHR ''0'', CHR ''9''), (CHR ''-'', CHR ''-'')]"

definition alpha :: "(char \<times> char) list" where
  "alpha = [(CHR ''a'', CHR ''z''), (CHR ''A'', CHR ''Z'')]"

definition digit :: "(char \<times> char) list" where
  "digit = [(CHR ''0'', CHR ''9'')]"

subsection \<open>Validators\<close>

text \<open>\<^verbatim>\<open>/^[a-zA-Z0-9][a-zA-Z0-9-]{1,61}[a-zA-Z0-9](?:\.[a-zA-Z]{2,})+$/\<close>\<close>

definition domainRegex :: regex where
  "domainRegex =
     Seq (Class alnum)
       (Seq (Repeat 1 (Some 61) (Class alnum_hyphen))
         (Seq (Class alnum)
           (Repeat 1 None (Seq (Lit CHR ''.'') (Repeat 2 None (Class alpha))))))"

definition isValidDomain :: "string \<Rightarrow> bool" where
  "isValidDomain domain = regex_test domainRegex domain"

text \<open>\<^verbatim>\<open>/^\d{4}-\d{2}-\d{2}$/\<close>\<close>

definition dateRegex :: regex where
  "dateRegex =
     Seq (Repeat 4 (Some 4) (Class digit))
       (Seq (Lit CHR ''-'')
         (Seq (Repeat 2 (Some 2) (Class digit))
           (Seq (Lit CHR ''-'') (Repeat 2 (Some 2) (Class digit)))))"

text \<open>
  \<^verbatim>\<open>date > today\<close> compares the two time values and is false when \<^verbatim>\<open>date\<close> is
  invalid. Reading the clock is logged.
\<close>

definition isValidExpirationDate :: "runtime \<Rightarrow> string \<Rightarrow> call list \<Rightarrow> bool \<times> call list" where
  "isValidExpirationDate rt dateString log =
     (let date = date_parse rt dateString; today = date_now rt in
      (date \<noteq> None \<and>
       (case date of None \<Rightarrow> False | Some t \<Rightarrow> today < t) \<and>
       regex_test dateRegex dateString,
       log @ [ReadClock]))"

subsection \<open>Checksum\<close>

definition calculateChecksum :: "runtime \<Rightarrow> string \<Rightarrow> call list \<Rightarrow> string \<times> call list" where
  "calculateChecksum rt data log = (take 8 (toHex (md5 rt data)), log @ [HashMd5 data])"

definition addChecksum :: "runtime \<Rightarrow> string \<Rightarrow> call list \<Rightarrow> string \<times> call list" where
  "addChecksum rt licenseKey log =
     (case calculateChecksum rt licenseKey log of
        (checksum, log') \<Rightarrow> (licenseKey @ ''.'' @ checksum, log'))"

subsection \<open>The verify command\<close>

text \<open>
  The body of the \<^verbatim>\<open>try\<close> block of the verify action: \<open>Inl e\<close> is the error thrown,
  \<open>Inr (salt, hash, checksum)\<close> the three parts printed for a valid key.
\<close>

definition verify ::
  "runtime \<Rightarrow> string \<Rightarrow> call list \<Rightarrow> (error + string \<times> string \<times> string) \<times> call list" where
  "verify rt key log =
     (let parts = str_split CHR ''.'' key in
      if length parts \<noteq> 3 then (Inl MalformedKey, log)
      else
        let salt = parts ! 0; hash = parts ! 1; checksum = parts ! 2 in
        (case calculateChecksum rt (salt @ ''.'' @ hash) log of
           (expectedChecksum, log') \<Rightarrow>
             if checksum \<noteq> expectedChecksum then (Inl ChecksumMismatch, log')
             else (Inr (salt, hash, checksum), log')))"

subsection \<open>Key generation and the generate command\<close>

text \<open>
  \<^verbatim>\<open>generateLicenseKey\<close>: any error inside its \<^verbatim>\<open>try\<close> block is replaced by
  \<open>KeyGenerationFailed\<close>.
\<close>

definition generateLicenseKey ::
  "runtime \<Rightarrow> string \<Rightarrow> string \<Rightarrow> string \<Rightarrow> call list \<Rightarrow> (error + string) \<times> call list" where
  "generateLicenseKey rt domain expire hardwareId log =
     (case random_bytes rt 16 of
        None \<Rightarrow> (Inl KeyGenerationFailed, log @ [DrawRandom 16])
      | Some bytes \<Rightarrow>
          let salt = toHex bytes;
              input = salt @ ''-'' @ domain @ ''-'' @ expire @ ''-'' @ hardwareId
          in (Inr (salt @ ''.'' @ toHex (sha256 rt input)),
              log @ [DrawRandom 16, HashSha256 input]))"

text \<open>
  The body of the \<^verbatim>\<open>try\<close> block of the generate action: \<open>Inl e\<close> is the error thrown,
  \<open>Inr key\<close> the key printed.
\<close>

definition generate ::
  "runtime \<Rightarrow> string \<Rightarrow> string \<Rightarrow> call list \<Rightarrow> (error + string) \<times> call list" where
  "generate rt domain expire log =
     (if \<not> isValidDomain domain then (Inl InvalidDomain, log)
      else
        (case isValidExpirationDate rt expire log of
           (valid, log1) \<Rightarrow>
             if \<not> valid then (Inl InvalidExpiration, log1)
             else
               (case machine_id rt of
                  Inl msg \<Rightarrow> (Inl (MachineIdError msg), log1 @ [ReadMachineId])
                | Inr hardwareId \<Rightarrow>
                    (case generateLicenseKey rt domain expire hardwareId (log1 @ [ReadMachineId]) of
                       (Inl e, log2) \<Rightarrow> (Inl e, log2)
                     | (Inr licenseKey, log2) \<Rightarrow>
                         (case addChecksum rt licenseKey log2 of
                            (finalLicenseKey, log3) \<Rightarrow> (Inr finalLicenseKey, log3))))))"

subsection \<open>Console output of the two commands\<close>

text \<open>
  What an action prints and how the process ends: \<open>exit_code\<close> is 1 after
  \<^verbatim>\<open>process.exit(1)\<close> in the \<^verbatim>\<open>catch\<close> block and 0 when the action returns.
\<close>

record console =
  out_lines :: "string list"
  err_lines :: "string list"
  exit_code :: nat

definition failed :: "error \<Rightarrow> console" where
  "failed e = \<lparr>out_lines = [], err_lines = [''Error: '' @ message e], exit_code = 1\<rparr>"

definition generate_command :: "runtime \<Rightarrow> string \<Rightarrow> string \<Rightarrow> call list \<Rightarrow> console \<times> call list" where
  "generate_command rt domain expire log =
     (case generate rt domain expire log of
        (Inl e, log') \<Rightarrow> (failed e, log')
      | (Inr finalLicenseKey, log') \<Rightarrow>
          (\<lparr>out_lines = [''Generated License Key: '' @ finalLicenseKey],
            err_lines = [], exit_code = 0\<rparr>, log'))"

definition verify_command :: "runtime \<Rightarrow> string \<Rightarrow> call list \<Rightarrow> console \<times> call list" where
  "verify_command rt key log =
     (case verify rt key log of
        (Inl e, log') \<Rightarrow> (failed e, log')
      | (Inr (salt, hash, checksum), log') \<Rightarrow>
          (\<lparr>out_lines = [''License key is valid'', ''Salt: '' @ salt, ''Hash: '' @ hash,
                         ''Checksum: '' @ checksum],
            err_lines = [], exit_code = 0\<rparr>, log'))"

subsection \<open>A concrete runtime\<close>

text \<open>
  A runtime to instantiate the theorems at: a fixed clock (2026-11-01T00:00:00Z), a date
  parser that knows one date (2099-12-31T00:00:00Z), a machine identifier, and stand-ins
  for the random source and the two hash functions that return buffers of the sizes the
  real ones do (16 random bytes on request, 32 bytes for SHA-256, 16 bytes for MD5).
\<close>

definition demo_runtime :: runtime where
  "demo_runtime =
     \<lparr>date_parse = (\<lambda>s. if s = ''2099-12-31'' then Some 4102358400000 else None),
      date_now = 1793491200000,
      machine_id = Inr ''abc123'',
      random_bytes = (\<lambda>n. Some (map of_nat [0..<n])),
      sha256 = (\<lambda>s. map (\<lambda>i. of_nat (length s + 29 * i)) [0..<32]),
      md5 = (\<lambda>s. map (\<lambda>i. of_nat (length s + 17 * i)) [0..<16])\<rparr>"

subsection \<open>Meaning of counted repetition\<close>

text \<open>
  What \<^verbatim>\<open>r{m,n}\<close> means, to state that \<open>repeat\<close> computes it: a list of pieces
  that each match, at least \<open>m\<close> and at most \<open>n\<close> of them. A pattern with
  \<open>m\<close> above \<open>n\<close> is a syntax error in JavaScript.
\<close>

definition pieces :: "(string \<Rightarrow> bool) \<Rightarrow> nat \<Rightarrow> nat option \<Rightarrow> string list \<Rightarrow> bool" where
  "pieces f m n ps \<longleftrightarrow>
     list_all f ps \<and> m \<le> length ps \<and> (case n of None \<Rightarrow> True | Some k \<Rightarrow> length ps \<le> k)"

definition bounds_ok :: "nat \<Rightarrow> nat option \<Rightarrow> bool" where
  "bounds_ok m n \<longleftrightarrow> (case n of None \<Rightarrow> True | Some k \<Rightarrow> m \<le> k)"

subsection \<open>The validators as the specification words them\<close>

text \<open>
  Definitions that follow the words of the specification, to compare with the patterns of
  the source. Letters and digits are listed character by character.
\<close>

definition is_digit :: "char \<Rightarrow> bool" where
  "is_digit c = (c \<in> set ''0123456789'')"

definition is_alpha :: "char \<Rightarrow> bool" where
  "is_alpha c = (c \<in> set ''abcdefghijklmnopqrstuvwxyzABCDEFGHIJKLMNOPQRSTUVWXYZ'')"

definition is_alnum :: "char \<Rightarrow> bool" where
  "is_alnum c = (is_alpha c \<or> is_digit c)"

text \<open>Four digits, dash, two digits, dash, two digits.\<close>

definition spec_date_shape :: "string \<Rightarrow> bool" where
  "spec_date_shape s \<longleftrightarrow>
     length s = 10 \<and>
     list_all is_digit (take 4 s) \<and> s ! 4 = CHR ''-'' \<and>
     list_all is_digit (take 2 (drop 5 s)) \<and> s ! 7 = CHR ''-'' \<and>
     list_all is_digit (drop 8 s)"

text \<open>
  The first label: it starts and ends with an alphanumeric character, its middle is
  alphanumeric or hyphen, and it has between 3 and 63 characters.
\<close>

definition spec_label :: "string \<Rightarrow> bool" where
  "spec_label l \<longleftrightarrow>
     3 \<le> length l \<and> length l \<le> 63 \<and>
     is_alnum (hd l) \<and> is_alnum (last l) \<and>
     list_all (\<lambda>c. is_alnum c \<or> c = CHR ''-'') (butlast (tl l))"

text \<open>A segment after a dot: two or more alphabetic characters.\<close>

definition spec_segment :: "string \<Rightarrow> bool" where
  "spec_segment t \<longleftrightarrow> 2 \<le> length t \<and> list_all is_alpha t"

text \<open>A domain: the first label, followed by one or more segments, each after a dot.\<close>

definition spec_domain :: "string \<Rightarrow> bool" where
  "spec_domain d =
     (case str_split CHR ''.'' d of
        [] \<Rightarrow> False
      | l # ts \<Rightarrow> spec_label l \<and> ts \<noteq> [] \<and> list_all spec_segment ts)"

subsection \<open>A real calendar date, as the specification words it\<close>

text \<open>
  The specification asks that the string parse to a real calendar date. In its words: the
  string has the shape of \<open>spec_date_shape\<close>, its month is from 1 to 12 and its day is
  from 1 to the number of days of that month in that year (29 in February of a leap year,
  28 otherwise).
\<close>

definition digit_value :: "char \<Rightarrow> nat" where
  "digit_value c = of_char c - of_char CHR ''0''"

definition decimal :: "string \<Rightarrow> nat" where
  "decimal s = foldl (\<lambda>n c. 10 * n + digit_value c) 0 s"

definition leap_year :: "nat \<Rightarrow> bool" where
  "leap_year y \<longleftrightarrow> y mod 4 = 0 \<and> (y mod 100 \<noteq> 0 \<or> y mod 400 = 0)"

definition days_in_month :: "nat \<Rightarrow> nat \<Rightarrow> nat" where
  "days_in_month y m =
     (if m = 2 then (if leap_year y then 29 else 28)
      else if m = 4 \<or> m = 6 \<or> m = 9 \<or> m = 11 then 30
      else 31)"

definition spec_calendar_date :: "string \<Rightarrow> bool" where
  "spec_calendar_date s \<longleftrightarrow>
     spec_date_shape s \<and>
     1 \<le> decimal (take 2 (drop 5 s)) \<and> decimal (take 2 (drop 5 s)) \<le> 12 \<and>
     1 \<le> decimal (drop 8 s) \<and>
     decimal (drop 8 s) \<le> days_in_month (decimal (take 4 s)) (decimal (take 2 (drop 5 s)))"

subsection \<open>A runtime with the date parser of Node\<close>

text \<open>
  V8, the engine of Node, reads a date-only string \<^verbatim>\<open>YYYY-MM-DD\<close> as midnight UTC and
  takes a day from 1 to 31 in every month: the days past the end of the month roll over
  into the next one. So \<^verbatim>\<open>new Date("2099-02-30")\<close> is a valid date, 2 March 2099
  (time value 4076092800000), not \<^verbatim>\<open>NaN\<close>. This runtime is \<open>demo_runtime\<close> with
  that value of the parser at that string.
\<close>

definition node_runtime :: runtime where
  "node_runtime =
     demo_runtime\<lparr>date_parse :=
       (\<lambda>s. if s = ''2099-02-30'' then Some 4076092800000 else date_parse demo_runtime s)\<rparr>"

section \<open>Properties\<close>

subsection \<open>Splitting\<close>

lemma str_split_nonempty: "str_split d s \<noteq> []"
  by (induction s) (auto split: list.splits)

lemma length_str_split: "length (str_split d s) = Suc (count_list s d)"
  by (induction s) (auto split: list.splits simp: str_split_nonempty)

lemma str_split_no_sep: "d \<notin> set s \<Longrightarrow> str_split d s = [s]"
  by (induction s) auto

lemma str_split_append:
  "d \<notin> set a \<Longrightarrow> str_split d (a @ d # b) = a # str_split d b"
  by (induction a) auto

lemma str_split_parts_no_sep: "p \<in> set (str_split d s) \<Longrightarrow> d \<notin> set p"
  by (induction s arbitrary: p) (auto split: if_splits list.splits)

subsection \<open>Hexadecimal encoding\<close>

lemma hexdigit_in: "n < 16 \<Longrightarrow> hexdigit n \<in> set hexchars"
  unfolding hexdigit_def by (rule nth_mem) (simp add: hexchars_def)

lemma hex_byte_chars: "set (hex_byte b) \<subseteq> set hexchars"
proof -
  have "unat b < 256" using unsigned_less [of b] by simp
  then have "unat b div 16 < 16" by simp
  moreover have "unat b mod 16 < 16" by simp
  ultimately show ?thesis
    by (simp add: hex_byte_def hexdigit_in)
qed

lemma toHex_chars: "set (toHex bs) \<subseteq> set hexchars"
  using hex_byte_chars by (auto simp: toHex_def)

lemma is_lower_hex_iff: "is_lower_hex s \<longleftrightarrow> set s \<subseteq> set hexchars"
  by (auto simp: is_lower_hex_def list_all_iff)

lemma is_lower_hex_toHex: "is_lower_hex (toHex bs)"
  by (simp add: is_lower_hex_iff toHex_chars)

lemma is_lower_hex_take: "is_lower_hex s \<Longrightarrow> is_lower_hex (take n s)"
  by (auto simp: is_lower_hex_iff dest: in_set_takeD)

lemma length_toHex: "length (toHex bs) = 2 * length bs"
  by (induction bs) (simp_all add: toHex_def hex_byte_def)

lemma take_toHex: "take (2 * k) (toHex bs) = toHex (take k bs)"
proof (induction bs arbitrary: k)
  case Nil
  then show ?case by (simp add: toHex_def)
next
  case (Cons b bs)
  show ?case
  proof (cases k)
    case 0
    then show ?thesis by (simp add: toHex_def)
  next
    case (Suc j)
    have "take (2 * j) (toHex bs) = toHex (take j bs)" by (rule Cons.IH)
    then show ?thesis using Suc by (simp add: toHex_def hex_byte_def)
  qed
qed

lemma lower_hex_no_dot: "is_lower_hex s \<Longrightarrow> CHR ''.'' \<notin> set s"
proof -
  have "CHR ''.'' \<notin> set hexchars" by (simp add: hexchars_def)
  then show "is_lower_hex s \<Longrightarrow> CHR ''.'' \<notin> set s"
    by (auto simp: is_lower_hex_iff)
qed

subsection \<open>Checksum and verification\<close>

lemma count_one_decomp:
  assumes "count_list s d = 1"
  shows "\<exists>a b. s = a @ d # b \<and> d \<notin> set a \<and> d \<notin> set b"
proof -
  from assms have "d \<in> set s"
    by (metis count_list_0_iff zero_neq_one)
  then obtain a b where s: "s = a @ d # b" and a: "d \<notin> set a"
    by (auto dest: split_list_first)
  from assms s a have "count_list b d = 0"
    by (simp add: count_list_0_iff)
  then have "d \<notin> set b" by (simp add: count_list_0_iff)
  with s a show ?thesis by blast
qed

lemma checksum_is_hex: "is_lower_hex (fst (calculateChecksum rt data log))"
  by (simp add: calculateChecksum_def is_lower_hex_take is_lower_hex_toHex)

lemma checksum_log_free:
  "fst (calculateChecksum rt data log) = fst (calculateChecksum rt data log')"
  by (simp add: calculateChecksum_def)

lemma str_split_three:
  assumes "CHR ''.'' \<notin> set a" "CHR ''.'' \<notin> set b" "CHR ''.'' \<notin> set c"
  shows "str_split CHR ''.'' (a @ ''.'' @ b @ ''.'' @ c) = [a, b, c]"
  using assms by (simp add: str_split_append str_split_no_sep)

lemma verify_joined:
  assumes "CHR ''.'' \<notin> set a" "CHR ''.'' \<notin> set b"
  shows "verify rt (a @ ''.'' @ b @ ''.'' @ fst (calculateChecksum rt (a @ ''.'' @ b) log)) log' =
    (Inr (a, b, fst (calculateChecksum rt (a @ ''.'' @ b) log)), log' @ [HashMd5 (a @ ''.'' @ b)])"
proof -
  let ?cs = "fst (calculateChecksum rt (a @ ''.'' @ b) log)"
  have "CHR ''.'' \<notin> set ?cs" by (rule lower_hex_no_dot) (rule checksum_is_hex)
  with assms have "str_split CHR ''.'' (a @ ''.'' @ b @ ''.'' @ ?cs) = [a, b, ?cs]"
    by (rule str_split_three)
  then show ?thesis
    by (simp add: verify_def Let_def calculateChecksum_def)
qed

text \<open>
  C1. For every core key string with exactly one \<open>.\<close> (the one between salt and
  digest), appending the checksum with \<open>addChecksum\<close> and verifying the result succeeds:
  verification reports the key valid, with the salt, the digest and the checksum that
  was appended as its three parts. This holds for every runtime and every call log.
\<close>

theorem addChecksum_verify_roundtrip:
  assumes "count_list coreKey CHR ''.'' = 1"
  shows "\<exists>salt hash.
    coreKey = salt @ ''.'' @ hash \<and>
    fst (verify rt (fst (addChecksum rt coreKey log)) log') =
      Inr (salt, hash, fst (calculateChecksum rt coreKey log))"
proof -
  from count_one_decomp [OF assms] obtain a b
    where s: "coreKey = a @ ''.'' @ b" and a: "CHR ''.'' \<notin> set a" and b: "CHR ''.'' \<notin> set b"
    by auto
  have "fst (addChecksum rt coreKey log) =
      a @ ''.'' @ b @ ''.'' @ fst (calculateChecksum rt (a @ ''.'' @ b) log)"
    by (simp add: addChecksum_def s split: prod.splits)
  then show ?thesis using verify_joined [OF a b, of rt log log'] s by auto
qed

theorem addChecksum_verify_roundtrip_witness:
  "count_list ''0a1b.c2d3'' CHR ''.'' = 1 \<and>
   (\<exists>salt hash.
      ''0a1b.c2d3'' = salt @ ''.'' @ hash \<and>
      fst (verify demo_runtime (fst (addChecksum demo_runtime ''0a1b.c2d3'' [])) []) =
        Inr (salt, hash, fst (calculateChecksum demo_runtime ''0a1b.c2d3'' [])))"
  using addChecksum_verify_roundtrip [of "''0a1b.c2d3''" demo_runtime "[]" "[]"]
  by simp

lemma verify_cases:
  "verify rt key log =
     (if length (str_split CHR ''.'' key) \<noteq> 3 then (Inl MalformedKey, log)
      else if str_split CHR ''.'' key ! 2 \<noteq>
          fst (calculateChecksum rt
                (str_split CHR ''.'' key ! 0 @ ''.'' @ str_split CHR ''.'' key ! 1) log)
      then (Inl ChecksumMismatch,
            log @ [HashMd5 (str_split CHR ''.'' key ! 0 @ ''.'' @ str_split CHR ''.'' key ! 1)])
      else (Inr (str_split CHR ''.'' key ! 0, str_split CHR ''.'' key ! 1,
                 str_split CHR ''.'' key ! 2),
            log @ [HashMd5 (str_split CHR ''.'' key ! 0 @ ''.'' @ str_split CHR ''.'' key ! 1)]))"
  by (simp add: verify_def Let_def calculateChecksum_def)

lemma message_kinds_differ: "message MalformedKey \<noteq> message ChecksumMismatch"
  by simp

subsection \<open>Facts about the concrete runtime\<close>

lemma demo_md5_length: "length (md5 demo_runtime s) = 16"
  by (simp add: demo_runtime_def)

lemma demo_sha256_length: "length (sha256 demo_runtime s) = 32"
  by (simp add: demo_runtime_def)

lemma demo_checksum_abc: "fst (calculateChecksum demo_runtime ''abc'' []) = ''03142536''"
  by code_simp

lemma demo_checksum_deadbeef:
  "fst (calculateChecksum demo_runtime ''deadbeef.cafebabe'' []) = ''11223344''"
  by code_simp

lemma demo_checksum_xy: "fst (calculateChecksum demo_runtime ''x.y'' []) = ''03142536''"
  by code_simp

lemma demo_split_two: "str_split CHR ''.'' ''deadbeef.cafebabe'' = [''deadbeef'', ''cafebabe'']"
  by simp

lemma demo_split_four: "length (str_split CHR ''.'' ''aa.bb.cc.dd'') = 4"
  by simp

lemma demo_split_three:
  "str_split CHR ''.'' ''deadbeef.cafebabe.00000000'' = [''deadbeef'', ''cafebabe'', ''00000000'']"
  by simp

subsection \<open>The checksum function\<close>

text \<open>
  C4. For every input string, \<open>calculateChecksum\<close> returns the first 8 characters of the
  lowercase hexadecimal encoding of the MD5 digest of the string, which is the encoding
  of the first 4 bytes of the digest; the result consists of lowercase hexadecimal
  digits and is 8 characters long when the digest has its 16 bytes. The function is
  deterministic and uses no salt: its only effect is the one MD5 call it logs (no random
  draw), and its result is the same under every runtime with the same MD5 function and
  every call log (so it does not depend on the random source, the clock or the machine
  identifier).
\<close>

theorem calculateChecksum_md5_prefix:
  "fst (calculateChecksum rt data log) = take 8 (toHex (md5 rt data)) \<and>
   fst (calculateChecksum rt data log) = toHex (take 4 (md5 rt data)) \<and>
   is_lower_hex (fst (calculateChecksum rt data log)) \<and>
   (length (md5 rt data) = 16 \<longrightarrow> length (fst (calculateChecksum rt data log)) = 8) \<and>
   snd (calculateChecksum rt data log) = log @ [HashMd5 data] \<and>
   (md5 rt' = md5 rt \<longrightarrow>
      fst (calculateChecksum rt' data log') = fst (calculateChecksum rt data log))"
proof -
  have "take 8 (toHex (md5 rt data)) = toHex (take 4 (md5 rt data))"
    using take_toHex [of 4 "md5 rt data"] by simp
  then show ?thesis
    by (simp add: calculateChecksum_def length_toHex is_lower_hex_take is_lower_hex_toHex)
qed

theorem calculateChecksum_md5_prefix_witness:
  "length (md5 demo_runtime ''abc'') = 16 \<and>
   fst (calculateChecksum demo_runtime ''abc'' []) = ''03142536'' \<and>
   md5 (demo_runtime\<lparr>random_bytes := \<lambda>n. None\<rparr>) = md5 demo_runtime \<and>
   fst (calculateChecksum (demo_runtime\<lparr>random_bytes := \<lambda>n. None\<rparr>) ''abc'' [ReadClock]) =
     fst (calculateChecksum demo_runtime ''abc'' [])"
  using calculateChecksum_md5_prefix
    [of demo_runtime "''abc''" "[]" "demo_runtime\<lparr>random_bytes := \<lambda>n. None\<rparr>" "[ReadClock]"]
    demo_md5_length [of "''abc''"] demo_checksum_abc
  by simp

subsection \<open>Failure kinds of verification\<close>

text \<open>
  C3. For every input string: if splitting it on \<open>.\<close> gives a number of parts other
  than 3, verification fails with \<open>MalformedKey\<close> (and computes no checksum); if it
  gives 3 parts and the third differs from the checksum of the first two, verification
  fails with \<open>ChecksumMismatch\<close>. The two kinds are different values with different
  messages, and the command prints the message of the kind that occurred to the error
  stream, so a caller can tell them apart.
\<close>

theorem verify_failure_kinds:
  "(length (str_split CHR ''.'' key) \<noteq> 3 \<longrightarrow> verify rt key log = (Inl MalformedKey, log)) \<and>
   (length (str_split CHR ''.'' key) = 3 \<and>
    str_split CHR ''.'' key ! 2 \<noteq>
      fst (calculateChecksum rt
             (str_split CHR ''.'' key ! 0 @ ''.'' @ str_split CHR ''.'' key ! 1) log) \<longrightarrow>
      fst (verify rt key log) = Inl ChecksumMismatch) \<and>
   MalformedKey \<noteq> ChecksumMismatch \<and>
   message MalformedKey \<noteq> message ChecksumMismatch \<and>
   err_lines (failed MalformedKey) \<noteq> err_lines (failed ChecksumMismatch) \<and>
   (fst (verify rt key log) = Inl e \<longrightarrow>
      fst (verify_command rt key log) = failed e)"
proof -
  have "fst (verify rt key log) = Inl e \<longrightarrow> fst (verify_command rt key log) = failed e"
    by (cases "verify rt key log") (auto simp: verify_command_def)
  moreover have "err_lines (failed MalformedKey) \<noteq> err_lines (failed ChecksumMismatch)"
    by (simp add: failed_def)
  ultimately show ?thesis
    using message_kinds_differ by (simp add: verify_cases)
qed

theorem verify_failure_kinds_witness:
  "length (str_split CHR ''.'' ''deadbeef.cafebabe'') \<noteq> 3 \<and>
   verify demo_runtime ''deadbeef.cafebabe'' [] = (Inl MalformedKey, []) \<and>
   length (str_split CHR ''.'' ''aa.bb.cc.dd'') \<noteq> 3 \<and>
   verify demo_runtime ''aa.bb.cc.dd'' [] = (Inl MalformedKey, []) \<and>
   length (str_split CHR ''.'' ''deadbeef.cafebabe.00000000'') = 3 \<and>
   fst (verify demo_runtime ''deadbeef.cafebabe.00000000'' []) = Inl ChecksumMismatch \<and>
   fst (verify_command demo_runtime ''deadbeef.cafebabe.00000000'' []) = failed ChecksumMismatch"
  using verify_failure_kinds [of "''deadbeef.cafebabe''" demo_runtime "[]"]
    verify_failure_kinds [of "''aa.bb.cc.dd''" demo_runtime "[]"]
    verify_failure_kinds [of "''deadbeef.cafebabe.00000000''" demo_runtime "[]" ChecksumMismatch]
    demo_split_two demo_split_four demo_split_three demo_checksum_deadbeef
  by simp

subsection \<open>Verification checks no shapes\<close>

text \<open>
  C10. Verification puts no constraint on the three parts beyond their number. The key
  \<open>x.y.\<close> followed by the checksum of \<open>x.y\<close> is reported valid although \<open>x\<close> and \<open>y\<close>
  are not hexadecimal strings of 32 and 64 characters; so is the key with an empty salt
  and an empty digest, and so is every key \<open>a.b.checksum(a.b)\<close> with no \<open>.\<close> in \<open>a\<close>
  and \<open>b\<close>. For every key, verification fails only with \<open>MalformedKey\<close>, exactly when
  the number of parts is not 3, or with \<open>ChecksumMismatch\<close>, exactly when there are 3
  parts and the third is not the checksum of the first two; otherwise it returns the
  three parts.
\<close>

theorem verify_accepts_any_shape:
  "fst (verify rt (''x.y.'' @ fst (calculateChecksum rt ''x.y'' log)) log') =
     Inr (''x'', ''y'', fst (calculateChecksum rt ''x.y'' log)) \<and>
   \<not> is_lower_hex ''x'' \<and> length ''x'' \<noteq> 32 \<and> \<not> is_lower_hex ''y'' \<and> length ''y'' \<noteq> 64 \<and>
   fst (verify rt (''..'' @ fst (calculateChecksum rt ''.'' log)) log') =
     Inr ([], [], fst (calculateChecksum rt ''.'' log)) \<and>
   (CHR ''.'' \<notin> set a \<and> CHR ''.'' \<notin> set b \<longrightarrow>
      fst (verify rt (a @ ''.'' @ b @ ''.'' @ fst (calculateChecksum rt (a @ ''.'' @ b) log)) log') =
        Inr (a, b, fst (calculateChecksum rt (a @ ''.'' @ b) log))) \<and>
   (case fst (verify rt key log) of
      Inl e \<Rightarrow>
        (e = MalformedKey \<and> length (str_split CHR ''.'' key) \<noteq> 3) \<or>
        (e = ChecksumMismatch \<and> length (str_split CHR ''.'' key) = 3 \<and>
         str_split CHR ''.'' key ! 2 \<noteq>
           fst (calculateChecksum rt
                  (str_split CHR ''.'' key ! 0 @ ''.'' @ str_split CHR ''.'' key ! 1) log))
    | Inr p \<Rightarrow>
        length (str_split CHR ''.'' key) = 3 \<and>
        p = (str_split CHR ''.'' key ! 0, str_split CHR ''.'' key ! 1, str_split CHR ''.'' key ! 2) \<and>
        str_split CHR ''.'' key ! 2 =
          fst (calculateChecksum rt
                 (str_split CHR ''.'' key ! 0 @ ''.'' @ str_split CHR ''.'' key ! 1) log))"
proof -
  have xy: "fst (verify rt (''x.y.'' @ fst (calculateChecksum rt ''x.y'' log)) log') =
     Inr (''x'', ''y'', fst (calculateChecksum rt ''x.y'' log))"
    using verify_joined [of "''x''" "''y''" rt log log'] by simp
  have empty: "fst (verify rt (''..'' @ fst (calculateChecksum rt ''.'' log)) log') =
     Inr ([], [], fst (calculateChecksum rt ''.'' log))"
    using verify_joined [of "[]" "[]" rt log log'] by simp
  have gen: "CHR ''.'' \<notin> set a \<and> CHR ''.'' \<notin> set b \<longrightarrow>
      fst (verify rt (a @ ''.'' @ b @ ''.'' @ fst (calculateChecksum rt (a @ ''.'' @ b) log)) log') =
        Inr (a, b, fst (calculateChecksum rt (a @ ''.'' @ b) log))"
    using verify_joined [of a b rt log log'] by simp
  have shape: "\<not> is_lower_hex ''x'' \<and> length ''x'' \<noteq> 32 \<and> \<not> is_lower_hex ''y'' \<and> length ''y'' \<noteq> 64"
    by (simp add: is_lower_hex_def hexchars_def)
  have only: "(case fst (verify rt key log) of
      Inl e \<Rightarrow>
        (e = MalformedKey \<and> length (str_split CHR ''.'' key) \<noteq> 3) \<or>
        (e = ChecksumMismatch \<and> length (str_split CHR ''.'' key) = 3 \<and>
         str_split CHR ''.'' key ! 2 \<noteq>
           fst (calculateChecksum rt
                  (str_split CHR ''.'' key ! 0 @ ''.'' @ str_split CHR ''.'' key ! 1) log))
    | Inr p \<Rightarrow>
        length (str_split CHR ''.'' key) = 3 \<and>
        p = (str_split CHR ''.'' key ! 0, str_split CHR ''.'' key ! 1, str_split CHR ''.'' key ! 2) \<and>
        str_split CHR ''.'' key ! 2 =
          fst (calculateChecksum rt
                 (str_split CHR ''.'' key ! 0 @ ''.'' @ str_split CHR ''.'' key ! 1) log))"
    by (simp add: verify_cases)
  from xy shape empty gen only show ?thesis by blast
qed

theorem verify_accepts_any_shape_witness:
  "fst (verify demo_runtime ''x.y.03142536'' []) = Inr (''x'', ''y'', ''03142536'') \<and>
   CHR ''.'' \<notin> set ''license'' \<and> CHR ''.'' \<notin> set ''key'' \<and>
   fst (verify demo_runtime
         (''license'' @ ''.'' @ ''key'' @ ''.'' @
          fst (calculateChecksum demo_runtime (''license'' @ ''.'' @ ''key'') [])) []) =
     Inr (''license'', ''key'', fst (calculateChecksum demo_runtime (''license'' @ ''.'' @ ''key'') []))"
  using verify_accepts_any_shape [of demo_runtime "[]" "[]" "''license''" "''key''" "[]"]
    demo_checksum_xy
  by simp

subsection \<open>Case analysis of generation\<close>

lemma isValidExpirationDate_log:
  "snd (isValidExpirationDate rt expire log) = log @ [ReadClock]"
  by (simp add: isValidExpirationDate_def Let_def)

lemma generateLicenseKey_cases:
  "generateLicenseKey rt domain expire hardwareId log =
     (case random_bytes rt 16 of
        None \<Rightarrow> (Inl KeyGenerationFailed, log @ [DrawRandom 16])
      | Some bytes \<Rightarrow>
          (Inr (toHex bytes @ ''.'' @
                toHex (sha256 rt (toHex bytes @ ''-'' @ domain @ ''-'' @ expire @ ''-'' @ hardwareId))),
           log @ [DrawRandom 16,
                  HashSha256 (toHex bytes @ ''-'' @ domain @ ''-'' @ expire @ ''-'' @ hardwareId)]))"
  by (simp add: generateLicenseKey_def Let_def split: option.splits)

lemma generate_cases:
  "generate rt domain expire log =
     (if \<not> isValidDomain domain then (Inl InvalidDomain, log)
      else if \<not> fst (isValidExpirationDate rt expire log)
        then (Inl InvalidExpiration, log @ [ReadClock])
      else
        (case machine_id rt of
           Inl msg \<Rightarrow> (Inl (MachineIdError msg), log @ [ReadClock, ReadMachineId])
         | Inr hardwareId \<Rightarrow>
             (case random_bytes rt 16 of
                None \<Rightarrow>
                  (Inl KeyGenerationFailed, log @ [ReadClock, ReadMachineId, DrawRandom 16])
              | Some bytes \<Rightarrow>
                  (Inr (toHex bytes @ ''.'' @
                        toHex (sha256 rt
                          (toHex bytes @ ''-'' @ domain @ ''-'' @ expire @ ''-'' @ hardwareId)) @
                        ''.'' @
                        fst (calculateChecksum rt
                          (toHex bytes @ ''.'' @
                           toHex (sha256 rt
                             (toHex bytes @ ''-'' @ domain @ ''-'' @ expire @ ''-'' @ hardwareId)))
                          [])),
                   log @ [ReadClock, ReadMachineId, DrawRandom 16,
                     HashSha256 (toHex bytes @ ''-'' @ domain @ ''-'' @ expire @ ''-'' @ hardwareId),
                     HashMd5 (toHex bytes @ ''.'' @
                        toHex (sha256 rt
                          (toHex bytes @ ''-'' @ domain @ ''-'' @ expire @ ''-'' @ hardwareId)))]))))"
  by (cases "isValidExpirationDate rt expire log")
     (use isValidExpirationDate_log [of rt expire log] in
      \<open>auto simp: generate_def generateLicenseKey_cases addChecksum_def calculateChecksum_def
         split: sum.splits option.splits prod.splits\<close>)

subsection \<open>The core key\<close>

text \<open>
  C5. For every domain, expiration string and hardware identifier, when the random source
  returns a 16-byte salt, \<open>generateLicenseKey\<close> returns the salt as 32 lowercase
  hexadecimal characters, a \<open>.\<close>, and the digest; the digest is the lowercase
  hexadecimal encoding (64 characters for the 32 bytes of SHA-256) of the SHA-256 digest of
  the plain concatenation salt, \<open>-\<close>, domain, \<open>-\<close>, expiration, \<open>-\<close>, hardware
  identifier. The fields carry no length prefix: the input of the hash is the
  concatenation and nothing else, so moving a \<open>-\<close> from the domain to the expiration
  (\<open>a-b\<close>, \<open>c\<close> against \<open>a\<close>, \<open>b-c\<close>) gives the same key for the same salt.
\<close>

theorem generateLicenseKey_core_key:
  assumes "random_bytes rt 16 = Some bytes" and "length bytes = 16"
    and "length (sha256 rt (toHex bytes @ ''-'' @ domain @ ''-'' @ expire @ ''-'' @ hardwareId)) = 32"
  shows "fst (generateLicenseKey rt domain expire hardwareId log) =
      Inr (toHex bytes @ ''.'' @
           toHex (sha256 rt (toHex bytes @ ''-'' @ domain @ ''-'' @ expire @ ''-'' @ hardwareId))) \<and>
    length (toHex bytes) = 32 \<and> is_lower_hex (toHex bytes) \<and>
    length (toHex (sha256 rt
      (toHex bytes @ ''-'' @ domain @ ''-'' @ expire @ ''-'' @ hardwareId))) = 64 \<and>
    is_lower_hex (toHex (sha256 rt
      (toHex bytes @ ''-'' @ domain @ ''-'' @ expire @ ''-'' @ hardwareId))) \<and>
    snd (generateLicenseKey rt domain expire hardwareId log) =
      log @ [DrawRandom 16,
             HashSha256 (toHex bytes @ ''-'' @ domain @ ''-'' @ expire @ ''-'' @ hardwareId)] \<and>
    generateLicenseKey rt ''a-b'' ''c'' hardwareId log =
      generateLicenseKey rt ''a'' ''b-c'' hardwareId log"
  using assms by (simp add: generateLicenseKey_cases length_toHex is_lower_hex_toHex)

lemma demo_random: "random_bytes demo_runtime 16 = Some (map of_nat [0..<16])"
  by (simp add: demo_runtime_def)

lemma demo_salt: "toHex (map of_nat [0..<16]) = ''000102030405060708090a0b0c0d0e0f''"
  by code_simp

lemma demo_digest:
  "toHex (sha256 demo_runtime ''000102030405060708090a0b0c0d0e0f-example.com-2099-12-31-abc123'') =
   ''3e5b7895b2cfec092643607d9ab7d4f10e2b4865829fbcd9f613304d6a87a4c1''"
  by code_simp

theorem generateLicenseKey_core_key_witness:
  "random_bytes demo_runtime 16 = Some (map of_nat [0..<16]) \<and>
   length (map of_nat [0..<16] :: byte list) = 16 \<and>
   length (sha256 demo_runtime
     (toHex (map of_nat [0..<16]) @ ''-'' @ ''example.com'' @ ''-'' @ ''2099-12-31'' @ ''-'' @ ''abc123'')) = 32 \<and>
   fst (generateLicenseKey demo_runtime ''example.com'' ''2099-12-31'' ''abc123'' []) =
     Inr ''000102030405060708090a0b0c0d0e0f.3e5b7895b2cfec092643607d9ab7d4f10e2b4865829fbcd9f613304d6a87a4c1''"
  using generateLicenseKey_core_key [of demo_runtime "map of_nat [0..<16]"
      "''example.com''" "''2099-12-31''" "''abc123''" "[]"]
    demo_random demo_sha256_length demo_salt demo_digest
  by simp

subsection \<open>Keys that generation returns\<close>

text \<open>
  Every key that \<open>generate\<close> returns splits into three parts, the first of them the
  encoded salt, and passes verification.
\<close>

lemma generated_key_parts:
  assumes "fst (generate rt domain expire log) = Inr key"
  obtains a b c where "str_split CHR ''.'' key = [a, b, c]"
    and "fst (verify rt key log') = Inr (a, b, c)"
    and "\<exists>bs. random_bytes rt 16 = Some bs \<and> a = toHex bs"
proof -
  from assms obtain hw bs where bs: "random_bytes rt 16 = Some bs"
    and key: "key = toHex bs @ ''.'' @
        toHex (sha256 rt (toHex bs @ ''-'' @ domain @ ''-'' @ expire @ ''-'' @ hw)) @ ''.'' @
        fst (calculateChecksum rt (toHex bs @ ''.'' @
          toHex (sha256 rt (toHex bs @ ''-'' @ domain @ ''-'' @ expire @ ''-'' @ hw))) [])"
    by (auto simp: generate_cases split: if_splits sum.splits option.splits)
  let ?a = "toHex bs"
  let ?b = "toHex (sha256 rt (toHex bs @ ''-'' @ domain @ ''-'' @ expire @ ''-'' @ hw))"
  let ?c = "fst (calculateChecksum rt (?a @ ''.'' @ ?b) [])"
  have a: "CHR ''.'' \<notin> set ?a" and b: "CHR ''.'' \<notin> set ?b" and c: "CHR ''.'' \<notin> set ?c"
    by (simp_all add: lower_hex_no_dot is_lower_hex_toHex checksum_is_hex)
  have "str_split CHR ''.'' key = [?a, ?b, ?c]"
    unfolding key using a b c by (rule str_split_three)
  moreover have "fst (verify rt key log') = Inr (?a, ?b, ?c)"
    unfolding key using verify_joined [OF a b, of rt "[]" log'] by simp
  ultimately show ?thesis using bs that by blast
qed

subsection \<open>The generate flow\<close>

text \<open>
  C8. The generate flow validates the domain, then validates the expiration (reading the
  clock), then obtains the hardware identifier, then generates the core key (one random
  draw, one SHA-256), then appends the checksum (one MD5), and fails at the first step
  that fails, with the error of that step and with no call of a later step in the log.
  In particular an invalid domain gives \<open>InvalidDomain\<close> with the call log unchanged,
  whatever the expiration and the runtime are: no clock read, no hardware identifier, no
  random draw and no hashing. There is no partial key: every key that is returned has
  its three parts and passes verification.
\<close>

theorem generate_fail_fast:
  "(\<not> isValidDomain domain \<longrightarrow>
      generate rt domain expire log = (Inl InvalidDomain, log)) \<and>
   (isValidDomain domain \<and> \<not> fst (isValidExpirationDate rt expire log) \<longrightarrow>
      generate rt domain expire log = (Inl InvalidExpiration, log @ [ReadClock])) \<and>
   (isValidDomain domain \<and> fst (isValidExpirationDate rt expire log) \<and>
    machine_id rt = Inl msg \<longrightarrow>
      generate rt domain expire log =
        (Inl (MachineIdError msg), log @ [ReadClock, ReadMachineId])) \<and>
   (isValidDomain domain \<and> fst (isValidExpirationDate rt expire log) \<and>
    machine_id rt = Inr hardwareId \<and> random_bytes rt 16 = None \<longrightarrow>
      generate rt domain expire log =
        (Inl KeyGenerationFailed, log @ [ReadClock, ReadMachineId, DrawRandom 16])) \<and>
   (isValidDomain domain \<and> fst (isValidExpirationDate rt expire log) \<and>
    machine_id rt = Inr hardwareId \<and> random_bytes rt 16 = Some bytes \<longrightarrow>
      (\<exists>coreKey input.
         input = toHex bytes @ ''-'' @ domain @ ''-'' @ expire @ ''-'' @ hardwareId \<and>
         coreKey = toHex bytes @ ''.'' @ toHex (sha256 rt input) \<and>
         generate rt domain expire log =
           (Inr (coreKey @ ''.'' @ take 8 (toHex (md5 rt coreKey))),
            log @ [ReadClock, ReadMachineId, DrawRandom 16, HashSha256 input, HashMd5 coreKey]))) \<and>
   (fst (generate rt domain expire log) = Inr key \<longrightarrow>
      length (str_split CHR ''.'' key) = 3 \<and>
      fst (verify rt key log') =
        Inr (str_split CHR ''.'' key ! 0, str_split CHR ''.'' key ! 1, str_split CHR ''.'' key ! 2))"
proof -
  have partial: "fst (generate rt domain expire log) = Inr key \<longrightarrow>
      length (str_split CHR ''.'' key) = 3 \<and>
      fst (verify rt key log') =
        Inr (str_split CHR ''.'' key ! 0, str_split CHR ''.'' key ! 1, str_split CHR ''.'' key ! 2)"
  proof
    assume "fst (generate rt domain expire log) = Inr key"
    then obtain a b c where "str_split CHR ''.'' key = [a, b, c]"
      and "fst (verify rt key log') = Inr (a, b, c)"
      by (rule generated_key_parts)
    then show "length (str_split CHR ''.'' key) = 3 \<and>
      fst (verify rt key log') =
        Inr (str_split CHR ''.'' key ! 0, str_split CHR ''.'' key ! 1, str_split CHR ''.'' key ! 2)"
      by simp
  qed
  have rest: "(\<not> isValidDomain domain \<longrightarrow>
      generate rt domain expire log = (Inl InvalidDomain, log)) \<and>
   (isValidDomain domain \<and> \<not> fst (isValidExpirationDate rt expire log) \<longrightarrow>
      generate rt domain expire log = (Inl InvalidExpiration, log @ [ReadClock])) \<and>
   (isValidDomain domain \<and> fst (isValidExpirationDate rt expire log) \<and>
    machine_id rt = Inl msg \<longrightarrow>
      generate rt domain expire log =
        (Inl (MachineIdError msg), log @ [ReadClock, ReadMachineId])) \<and>
   (isValidDomain domain \<and> fst (isValidExpirationDate rt expire log) \<and>
    machine_id rt = Inr hardwareId \<and> random_bytes rt 16 = None \<longrightarrow>
      generate rt domain expire log =
        (Inl KeyGenerationFailed, log @ [ReadClock, ReadMachineId, DrawRandom 16])) \<and>
   (isValidDomain domain \<and> fst (isValidExpirationDate rt expire log) \<and>
    machine_id rt = Inr hardwareId \<and> random_bytes rt 16 = Some bytes \<longrightarrow>
      (\<exists>coreKey input.
         input = toHex bytes @ ''-'' @ domain @ ''-'' @ expire @ ''-'' @ hardwareId \<and>
         coreKey = toHex bytes @ ''.'' @ toHex (sha256 rt input) \<and>
         generate rt domain expire log =
           (Inr (coreKey @ ''.'' @ take 8 (toHex (md5 rt coreKey))),
            log @ [ReadClock, ReadMachineId, DrawRandom 16, HashSha256 input, HashMd5 coreKey])))"
    by (simp add: generate_cases calculateChecksum_def)
  from rest partial show ?thesis by blast
qed

lemma demo_domain_ok: "isValidDomain ''example.com''"
  by code_simp

lemma demo_domain_bad: "\<not> isValidDomain ''-example.com''"
  by code_simp

lemma demo_expire_ok: "fst (isValidExpirationDate demo_runtime ''2099-12-31'' [])"
  by code_simp

lemma demo_expire_bad: "\<not> fst (isValidExpirationDate demo_runtime ''2099-1-5'' [])"
  by code_simp

lemma demo_machine_id: "machine_id demo_runtime = Inr ''abc123''"
  by (simp add: demo_runtime_def)

lemma demo_generate:
  "generate demo_runtime ''example.com'' ''2099-12-31'' [] =
   (Inr ''000102030405060708090a0b0c0d0e0f.3e5b7895b2cfec092643607d9ab7d4f10e2b4865829fbcd9f613304d6a87a4c1.61728394'',
    [ReadClock, ReadMachineId, DrawRandom 16,
     HashSha256 ''000102030405060708090a0b0c0d0e0f-example.com-2099-12-31-abc123'',
     HashMd5 ''000102030405060708090a0b0c0d0e0f.3e5b7895b2cfec092643607d9ab7d4f10e2b4865829fbcd9f613304d6a87a4c1''])"
  by code_simp

lemma demo_generate_key:
  "fst (generate demo_runtime ''example.com'' ''2099-12-31'' []) =
   Inr ''000102030405060708090a0b0c0d0e0f.3e5b7895b2cfec092643607d9ab7d4f10e2b4865829fbcd9f613304d6a87a4c1.61728394''"
  by (simp add: demo_generate)

lemma demo_expire_ok_no_id:
  "fst (isValidExpirationDate (demo_runtime\<lparr>machine_id := Inl ''no id''\<rparr>) ''2099-12-31'' [])"
  using demo_expire_ok by (simp add: isValidExpirationDate_def)

lemma demo_expire_ok_no_random:
  "fst (isValidExpirationDate (demo_runtime\<lparr>random_bytes := \<lambda>n. None\<rparr>) ''2099-12-31'' [])"
  using demo_expire_ok by (simp add: isValidExpirationDate_def)

theorem generate_fail_fast_witness:
  "\<not> isValidDomain ''-example.com'' \<and>
   generate (demo_runtime\<lparr>machine_id := Inl ''no id''\<rparr>) ''-example.com'' ''yesterday'' [] =
     (Inl InvalidDomain, []) \<and>
   isValidDomain ''example.com'' \<and>
   \<not> fst (isValidExpirationDate demo_runtime ''2099-1-5'' []) \<and>
   generate demo_runtime ''example.com'' ''2099-1-5'' [] = (Inl InvalidExpiration, [ReadClock]) \<and>
   fst (isValidExpirationDate (demo_runtime\<lparr>machine_id := Inl ''no id''\<rparr>) ''2099-12-31'' []) \<and>
   machine_id (demo_runtime\<lparr>machine_id := Inl ''no id''\<rparr>) = Inl ''no id'' \<and>
   generate (demo_runtime\<lparr>machine_id := Inl ''no id''\<rparr>) ''example.com'' ''2099-12-31'' [] =
     (Inl (MachineIdError ''no id''), [ReadClock, ReadMachineId]) \<and>
   fst (isValidExpirationDate (demo_runtime\<lparr>random_bytes := \<lambda>n. None\<rparr>) ''2099-12-31'' []) \<and>
   machine_id (demo_runtime\<lparr>random_bytes := \<lambda>n. None\<rparr>) = Inr ''abc123'' \<and>
   random_bytes (demo_runtime\<lparr>random_bytes := \<lambda>n. None\<rparr>) 16 = None \<and>
   generate (demo_runtime\<lparr>random_bytes := \<lambda>n. None\<rparr>) ''example.com'' ''2099-12-31'' [] =
     (Inl KeyGenerationFailed, [ReadClock, ReadMachineId, DrawRandom 16]) \<and>
   fst (isValidExpirationDate demo_runtime ''2099-12-31'' []) \<and>
   machine_id demo_runtime = Inr ''abc123'' \<and>
   random_bytes demo_runtime 16 = Some (map of_nat [0..<16]) \<and>
   snd (generate demo_runtime ''example.com'' ''2099-12-31'' []) =
     [ReadClock, ReadMachineId, DrawRandom 16,
      HashSha256 ''000102030405060708090a0b0c0d0e0f-example.com-2099-12-31-abc123'',
      HashMd5 ''000102030405060708090a0b0c0d0e0f.3e5b7895b2cfec092643607d9ab7d4f10e2b4865829fbcd9f613304d6a87a4c1''] \<and>
   fst (generate demo_runtime ''example.com'' ''2099-12-31'' []) =
     Inr ''000102030405060708090a0b0c0d0e0f.3e5b7895b2cfec092643607d9ab7d4f10e2b4865829fbcd9f613304d6a87a4c1.61728394'' \<and>
   length (str_split CHR ''.''
     ''000102030405060708090a0b0c0d0e0f.3e5b7895b2cfec092643607d9ab7d4f10e2b4865829fbcd9f613304d6a87a4c1.61728394'') = 3"
proof -
  have a: "generate (demo_runtime\<lparr>machine_id := Inl ''no id''\<rparr>) ''-example.com'' ''yesterday'' [] =
     (Inl InvalidDomain, [])"
    using generate_fail_fast [of "''-example.com''" "demo_runtime\<lparr>machine_id := Inl ''no id''\<rparr>"
        "''yesterday''" "[]"] demo_domain_bad
    by blast
  have b: "generate demo_runtime ''example.com'' ''2099-1-5'' [] = (Inl InvalidExpiration, [ReadClock])"
    using generate_fail_fast [of "''example.com''" demo_runtime "''2099-1-5''" "[]"]
      demo_domain_ok demo_expire_bad
    by simp
  have m: "machine_id (demo_runtime\<lparr>machine_id := Inl ''no id''\<rparr>) = Inl ''no id''"
    by simp
  have c: "generate (demo_runtime\<lparr>machine_id := Inl ''no id''\<rparr>) ''example.com'' ''2099-12-31'' [] =
     (Inl (MachineIdError ''no id''), [ReadClock, ReadMachineId])"
    using generate_fail_fast [of "''example.com''" "demo_runtime\<lparr>machine_id := Inl ''no id''\<rparr>"
        "''2099-12-31''" "[]" "''no id''"]
      demo_domain_ok demo_expire_ok_no_id m
    by simp
  have r1: "machine_id (demo_runtime\<lparr>random_bytes := \<lambda>n. None\<rparr>) = Inr ''abc123''"
    and r2: "random_bytes (demo_runtime\<lparr>random_bytes := \<lambda>n. None\<rparr>) 16 = None"
    by (simp_all add: demo_machine_id)
  have d: "generate (demo_runtime\<lparr>random_bytes := \<lambda>n. None\<rparr>) ''example.com'' ''2099-12-31'' [] =
     (Inl KeyGenerationFailed, [ReadClock, ReadMachineId, DrawRandom 16])"
    using generate_fail_fast [of "''example.com''" "demo_runtime\<lparr>random_bytes := \<lambda>n. None\<rparr>"
        "''2099-12-31''" "[]" _ "''abc123''"]
      demo_domain_ok demo_expire_ok_no_random r1 r2
    by simp
  have e: "\<exists>coreKey input.
      input = toHex (map of_nat [0..<16]) @ ''-'' @ ''example.com'' @ ''-'' @ ''2099-12-31'' @ ''-'' @ ''abc123'' \<and>
      coreKey = toHex (map of_nat [0..<16]) @ ''.'' @ toHex (sha256 demo_runtime input) \<and>
      generate demo_runtime ''example.com'' ''2099-12-31'' [] =
        (Inr (coreKey @ ''.'' @ take 8 (toHex (md5 demo_runtime coreKey))),
         [] @ [ReadClock, ReadMachineId, DrawRandom 16, HashSha256 input, HashMd5 coreKey])"
    using generate_fail_fast [of "''example.com''" demo_runtime "''2099-12-31''" "[]" _ "''abc123''"
        "map of_nat [0..<16]"]
      demo_domain_ok demo_expire_ok demo_machine_id demo_random
    by blast
  have e': "snd (generate demo_runtime ''example.com'' ''2099-12-31'' []) =
     [ReadClock, ReadMachineId, DrawRandom 16,
      HashSha256 ''000102030405060708090a0b0c0d0e0f-example.com-2099-12-31-abc123'',
      HashMd5 ''000102030405060708090a0b0c0d0e0f.3e5b7895b2cfec092643607d9ab7d4f10e2b4865829fbcd9f613304d6a87a4c1'']"
    using e by (auto simp: demo_salt demo_digest)
  have f: "length (str_split CHR ''.''
     ''000102030405060708090a0b0c0d0e0f.3e5b7895b2cfec092643607d9ab7d4f10e2b4865829fbcd9f613304d6a87a4c1.61728394'') = 3"
    using generate_fail_fast [of "''example.com''" demo_runtime "''2099-12-31''" "[]" _ _ _
      "''000102030405060708090a0b0c0d0e0f.3e5b7895b2cfec092643607d9ab7d4f10e2b4865829fbcd9f613304d6a87a4c1.61728394''"]
      demo_generate_key
    by blast
  from a b c d e' f m r1 r2 demo_domain_ok demo_domain_bad demo_expire_ok demo_expire_bad
    demo_expire_ok_no_id demo_expire_ok_no_random demo_machine_id demo_random demo_generate_key
  show ?thesis by blast
qed

subsection \<open>Format of a generated key\<close>

text \<open>
  C2. For every successful generation (valid domain, valid expiration, hardware
  identifier available, 16 random bytes drawn, hash functions returning 32 and 16 bytes),
  the key returned is \<open>salt.digest.checksum\<close> with 32, 64 and 8 lowercase hexadecimal
  characters: splitting it on \<open>.\<close> gives exactly these three parts and its length is
  106. Verifying that string succeeds, returns the same three parts, and the verify
  command prints them.
\<close>

theorem generate_key_format:
  assumes "isValidDomain domain"
    and "fst (isValidExpirationDate rt expire log)"
    and "machine_id rt = Inr hardwareId"
    and "random_bytes rt 16 = Some bytes" and "length bytes = 16"
    and "\<forall>s. length (sha256 rt s) = 32" and "\<forall>s. length (md5 rt s) = 16"
  shows "\<exists>salt digest checksum.
    fst (generate rt domain expire log) = Inr (salt @ ''.'' @ digest @ ''.'' @ checksum) \<and>
    length salt = 32 \<and> is_lower_hex salt \<and>
    length digest = 64 \<and> is_lower_hex digest \<and>
    length checksum = 8 \<and> is_lower_hex checksum \<and>
    str_split CHR ''.'' (salt @ ''.'' @ digest @ ''.'' @ checksum) = [salt, digest, checksum] \<and>
    length (salt @ ''.'' @ digest @ ''.'' @ checksum) = 106 \<and>
    fst (verify rt (salt @ ''.'' @ digest @ ''.'' @ checksum) log') = Inr (salt, digest, checksum) \<and>
    out_lines (fst (verify_command rt (salt @ ''.'' @ digest @ ''.'' @ checksum) log')) =
      [''License key is valid'', ''Salt: '' @ salt, ''Hash: '' @ digest, ''Checksum: '' @ checksum]"
proof -
  let ?a = "toHex bytes"
  let ?b = "toHex (sha256 rt (toHex bytes @ ''-'' @ domain @ ''-'' @ expire @ ''-'' @ hardwareId))"
  let ?c = "fst (calculateChecksum rt (?a @ ''.'' @ ?b) [])"
  let ?k = "?a @ ''.'' @ ?b @ ''.'' @ ?c"
  have gen: "fst (generate rt domain expire log) = Inr ?k"
    using assms(1-4) by (simp add: generate_cases)
  have la: "length ?a = 32" and lb: "length ?b = 64" and lc: "length ?c = 8"
    using assms(5-7) by (simp_all add: length_toHex calculateChecksum_def)
  have ha: "is_lower_hex ?a" and hb: "is_lower_hex ?b" and hc: "is_lower_hex ?c"
    by (simp_all add: is_lower_hex_toHex checksum_is_hex)
  have a: "CHR ''.'' \<notin> set ?a" and b: "CHR ''.'' \<notin> set ?b" and c: "CHR ''.'' \<notin> set ?c"
    using ha hb hc by (simp_all add: lower_hex_no_dot)
  have split: "str_split CHR ''.'' ?k = [?a, ?b, ?c]"
    using a b c by (rule str_split_three)
  have len: "length ?k = 106"
    using la lb lc by simp
  have ver: "verify rt ?k log' = (Inr (?a, ?b, ?c), log' @ [HashMd5 (?a @ ''.'' @ ?b)])"
    using verify_joined [OF a b, of rt "[]" log'] by simp
  then have ver1: "fst (verify rt ?k log') = Inr (?a, ?b, ?c)"
    by simp
  have cmd: "out_lines (fst (verify_command rt ?k log')) =
      [''License key is valid'', ''Salt: '' @ ?a, ''Hash: '' @ ?b, ''Checksum: '' @ ?c]"
    unfolding verify_command_def ver by simp
  from gen la lb lc ha hb hc split len ver1 cmd show ?thesis
    by blast
qed

theorem generate_key_format_witness:
  "isValidDomain ''example.com'' \<and>
   fst (isValidExpirationDate demo_runtime ''2099-12-31'' []) \<and>
   machine_id demo_runtime = Inr ''abc123'' \<and>
   random_bytes demo_runtime 16 = Some (map of_nat [0..<16]) \<and>
   length (map of_nat [0..<16] :: byte list) = 16 \<and>
   (\<forall>s. length (sha256 demo_runtime s) = 32) \<and>
   (\<forall>s. length (md5 demo_runtime s) = 16) \<and>
   (\<exists>salt digest checksum.
      fst (generate demo_runtime ''example.com'' ''2099-12-31'' []) =
        Inr (salt @ ''.'' @ digest @ ''.'' @ checksum) \<and>
      length salt = 32 \<and> length digest = 64 \<and> length checksum = 8 \<and>
      fst (verify demo_runtime (salt @ ''.'' @ digest @ ''.'' @ checksum) []) =
        Inr (salt, digest, checksum))"
proof -
  have l: "length (map of_nat [0..<16] :: byte list) = 16" by simp
  have s: "\<forall>s. length (sha256 demo_runtime s) = 32" by (simp add: demo_sha256_length)
  have m: "\<forall>s. length (md5 demo_runtime s) = 16" by (simp add: demo_md5_length)
  from generate_key_format [OF demo_domain_ok demo_expire_ok demo_machine_id demo_random l s m,
      of "[]"]
  have "\<exists>salt digest checksum.
      fst (generate demo_runtime ''example.com'' ''2099-12-31'' []) =
        Inr (salt @ ''.'' @ digest @ ''.'' @ checksum) \<and>
      length salt = 32 \<and> length digest = 64 \<and> length checksum = 8 \<and>
      fst (verify demo_runtime (salt @ ''.'' @ digest @ ''.'' @ checksum) []) =
        Inr (salt, digest, checksum)"
    by blast
  with demo_domain_ok demo_expire_ok demo_machine_id demo_random l s m show ?thesis
    by blast
qed

section \<open>Regular expressions and validators\<close>

subsection \<open>Matching\<close>

lemma list_ex_upt: "list_ex P [0..<n] \<longleftrightarrow> (\<exists>i<n. P i)"
  by (auto simp: list_ex_iff)

lemma matches_Class_iff: "matches (Class rs) s \<longleftrightarrow> (\<exists>c. s = [c] \<and> in_class rs c)"
  by (auto split: list.splits)

lemma in_class_single: "in_class [(d, d)] c \<longleftrightarrow> c = d"
proof -
  have "(of_char d :: nat) \<le> of_char c \<and> (of_char c :: nat) \<le> of_char d \<longleftrightarrow>
      (of_char c :: nat) = of_char d"
    by auto
  then show ?thesis by (simp add: in_class_def)
qed

lemma matches_Lit_iff: "matches (Lit d) s \<longleftrightarrow> s = [d]"
  unfolding Lit_def by (subst matches_Class_iff) (auto simp: in_class_single)

lemma matches_Seq_iff:
  "matches (Seq r1 r2) s \<longleftrightarrow> (\<exists>a b. s = a @ b \<and> matches r1 a \<and> matches r2 b)"
proof
  assume "matches (Seq r1 r2) s"
  then obtain i where "matches r1 (take i s)" "matches r2 (drop i s)"
    by (auto simp: list_ex_upt simp del: upt_Suc split: if_splits)
  then have "s = take i s @ drop i s \<and> matches r1 (take i s) \<and> matches r2 (drop i s)"
    by simp
  then show "\<exists>a b. s = a @ b \<and> matches r1 a \<and> matches r2 b"
    by blast
next
  assume "\<exists>a b. s = a @ b \<and> matches r1 a \<and> matches r2 b"
  then obtain a b where s: "s = a @ b" and a: "matches r1 a" and b: "matches r2 b"
    by blast
  have "length a < Suc (length s)" using s by simp
  moreover have "matches r1 (take (length a) s) \<and> matches r2 (drop (length a) s)"
    using s a b by simp
  ultimately have "\<exists>i<Suc (length s). matches r1 (take i s) \<and> matches r2 (drop i s)"
    by blast
  then show "matches (Seq r1 r2) s"
    by (auto simp: list_ex_upt simp del: upt_Suc)
qed

lemma repeat_Nil: "repeat f m n [] \<longleftrightarrow> (if n = Some 0 then m = 0 else m = 0 \<or> f [])"
  by (subst repeat.simps) simp

lemma repeat_nonempty:
  "s \<noteq> [] \<Longrightarrow> repeat f m n s \<longleftrightarrow>
     n \<noteq> Some 0 \<and>
     (\<exists>i<length s. f (take (Suc i) s) \<and>
        repeat f (m - 1) (map_option (\<lambda>k. k - 1) n) (drop (Suc i) s))"
  by (subst repeat.simps) (auto simp: list_ex_upt)

lemma bounds_ok_pred: "bounds_ok m n \<Longrightarrow> bounds_ok (m - 1) (map_option (\<lambda>k. k - 1) n)"
  by (auto simp: bounds_ok_def split: option.splits)

lemma pieces_Cons:
  assumes "f p" and "pieces f (m - 1) (map_option (\<lambda>k. k - 1) n) ps" and "n \<noteq> Some 0"
  shows "pieces f m n (p # ps)"
  using assms by (auto simp: pieces_def split: option.splits)

lemma repeat_sound:
  "repeat f m n s \<Longrightarrow> bounds_ok m n \<Longrightarrow> \<exists>ps. concat ps = s \<and> pieces f m n ps"
proof (induction "length s" arbitrary: s m n rule: less_induct)
  case less
  show ?case
  proof (cases "s = []")
    case True
    with less.prems(1) have c: "if n = Some 0 then m = 0 else m = 0 \<or> f []"
      by (simp add: repeat_Nil)
    show ?thesis
    proof (cases "m = 0")
      case True
      with \<open>s = []\<close> have "concat [] = s \<and> pieces f m n []"
        by (simp add: pieces_def split: option.splits)
      then show ?thesis by blast
    next
      case False
      with c have "f []" by (auto split: if_splits)
      with \<open>s = []\<close> less.prems(2) have "concat (replicate m []) = s \<and> pieces f m n (replicate m [])"
        by (auto simp: pieces_def bounds_ok_def list_all_iff split: option.splits)
      then show ?thesis by blast
    qed
  next
    case False
    with less.prems(1) obtain i where n0: "n \<noteq> Some 0" and i: "i < length s"
      and p: "f (take (Suc i) s)"
      and r: "repeat f (m - 1) (map_option (\<lambda>k. k - 1) n) (drop (Suc i) s)"
      by (auto simp: repeat_nonempty)
    from i have "length (drop (Suc i) s) < length s" by simp
    from less.hyps [OF this r bounds_ok_pred [OF less.prems(2)]]
    obtain ps where ps: "concat ps = drop (Suc i) s"
      and pc: "pieces f (m - 1) (map_option (\<lambda>k. k - 1) n) ps"
      by blast
    have "concat (take (Suc i) s # ps) = s" using ps by simp
    moreover have "pieces f m n (take (Suc i) s # ps)"
      using p pc n0 by (rule pieces_Cons)
    ultimately show ?thesis by blast
  qed
qed

lemma repeat_complete:
  "pieces f m n ps \<Longrightarrow> repeat f m n (concat ps)"
proof (induction "length (concat ps)" arbitrary: ps m n rule: less_induct)
  case less
  let ?s = "concat ps"
  from less.prems have all: "list_all f ps" and lo: "m \<le> length ps"
    and hi: "case n of None \<Rightarrow> True | Some k \<Rightarrow> length ps \<le> k"
    by (simp_all add: pieces_def)
  show ?case
  proof (cases "n = Some 0")
    case True
    with hi lo have "ps = []" "m = 0" by simp_all
    with True show ?thesis by (simp add: repeat_Nil)
  next
    case n0: False
    show ?thesis
    proof (cases "?s = []")
      case True
      have "m = 0 \<or> f []"
      proof (cases ps)
        case Nil
        with lo show ?thesis by simp
      next
        case (Cons p ps')
        with True have "p = []" by simp
        with Cons all show ?thesis by simp
      qed
      with n0 show ?thesis unfolding True by (simp add: repeat_Nil)
    next
      case False
      define es where "es = takeWhile (\<lambda>p. p = []) ps"
      define qs where "qs = dropWhile (\<lambda>p. p = []) ps"
      have ps: "ps = es @ qs" by (simp add: es_def qs_def)
      have es: "concat es = []" by (auto simp: es_def dest: set_takeWhileD)
      with False ps have qne: "qs \<noteq> []" by auto
      then obtain p rest where qs: "qs = p # rest" by (cases qs) auto
      have pne: "p \<noteq> []"
      proof -
        have "dropWhile (\<lambda>p. p = []) ps \<noteq> []" using qne by (simp add: qs_def)
        then have "\<not> (hd (dropWhile (\<lambda>p. p = []) ps) = [])" by (rule hd_dropWhile)
        then show ?thesis using qs by (simp add: qs_def)
      qed
      have s: "?s = p @ concat rest" using ps es qs by simp
      have fp: "f p" using all ps qs by (simp add: list_all_iff)
      have i: "length p - 1 < length ?s" using pne s by (cases p) auto
      have tk: "take (Suc (length p - 1)) ?s = p" using pne s by (cases p) auto
      have dr: "drop (Suc (length p - 1)) ?s = concat rest" using pne s by (cases p) auto
      have cr: "concat (es @ rest) = concat rest" unfolding concat_append es by simp
      have "length (concat (es @ rest)) < length ?s" unfolding cr s using pne by simp
      moreover have "pieces f (m - 1) (map_option (\<lambda>k. k - 1) n) (es @ rest)"
        using all lo hi ps qs by (auto simp: pieces_def split: option.splits)
      ultimately have "repeat f (m - 1) (map_option (\<lambda>k. k - 1) n) (concat (es @ rest))"
        by (rule less.hyps)
      then have "repeat f (m - 1) (map_option (\<lambda>k. k - 1) n) (drop (Suc (length p - 1)) ?s)"
        unfolding cr dr .
      with i tk fp n0 False show ?thesis
        by (subst repeat_nonempty) auto
    qed
  qed
qed

lemma repeat_iff:
  "bounds_ok m n \<Longrightarrow> repeat f m n s \<longleftrightarrow> (\<exists>ps. concat ps = s \<and> pieces f m n ps)"
  using repeat_sound repeat_complete by blast

subsection \<open>Character classes\<close>

lemma range_chars:
  "(of_char lo :: nat) \<le> of_char c \<and> (of_char c :: nat) \<le> of_char hi \<longleftrightarrow>
   c \<in> set (map char_of [of_char lo ..< Suc (of_char hi) :: nat])"
proof -
  have "c = char_of (of_char c :: nat)" by simp
  have "c \<in> set (map char_of [of_char lo ..< Suc (of_char hi) :: nat]) \<longleftrightarrow>
      (\<exists>n. (of_char lo :: nat) \<le> n \<and> n \<le> of_char hi \<and> c = char_of n)"
    by auto
  also have "\<dots> \<longleftrightarrow> (of_char lo :: nat) \<le> of_char c \<and> (of_char c :: nat) \<le> of_char hi"
  proof
    assume "\<exists>n. (of_char lo :: nat) \<le> n \<and> n \<le> of_char hi \<and> c = char_of n"
    then obtain n where n: "(of_char lo :: nat) \<le> n" "n \<le> of_char hi" "c = char_of n" by blast
    have "(of_char hi :: nat) < 256" by simp
    with n(2) have "n < 256" by (rule le_less_trans)
    then have "of_char (char_of n) = n" by (simp add: of_char_of)
    with n show "(of_char lo :: nat) \<le> of_char c \<and> (of_char c :: nat) \<le> of_char hi" by simp
  next
    assume "(of_char lo :: nat) \<le> of_char c \<and> (of_char c :: nat) \<le> of_char hi"
    then have "(of_char lo :: nat) \<le> of_char c \<and> (of_char c :: nat) \<le> of_char hi \<and> c = char_of (of_char c :: nat)"
      by simp
    then show "\<exists>n. (of_char lo :: nat) \<le> n \<and> n \<le> of_char hi \<and> c = char_of n" by blast
  qed
  finally show ?thesis by simp
qed

lemma digits: "map char_of [of_char CHR ''0'' ..< Suc (of_char CHR ''9'') :: nat] = ''0123456789''"
  by code_simp

lemma lowers: "map char_of [of_char CHR ''a'' ..< Suc (of_char CHR ''z'') :: nat] = ''abcdefghijklmnopqrstuvwxyz''"
  by code_simp

lemma uppers: "map char_of [of_char CHR ''A'' ..< Suc (of_char CHR ''Z'') :: nat] = ''ABCDEFGHIJKLMNOPQRSTUVWXYZ''"
  by code_simp

lemma in_class_digit_iff: "in_class digit c \<longleftrightarrow> is_digit c"
  unfolding in_class_def digit_def list_ex_Cons_iff list_ex_Nil_iff prod.case range_chars digits
    is_digit_def
  by simp

lemma in_class_alpha_iff: "in_class alpha c \<longleftrightarrow> is_alpha c"
  unfolding in_class_def alpha_def list_ex_Cons_iff list_ex_Nil_iff prod.case range_chars
    lowers uppers is_alpha_def
  by auto

lemma in_class_alnum_iff: "in_class alnum c \<longleftrightarrow> is_alnum c"
  unfolding in_class_def alnum_def list_ex_Cons_iff list_ex_Nil_iff prod.case range_chars
    lowers uppers digits is_alnum_def is_alpha_def is_digit_def
  by auto

lemma in_class_alnum_hyphen_iff: "in_class alnum_hyphen c \<longleftrightarrow> is_alnum c \<or> c = CHR ''-''"
proof -
  have "in_class alnum_hyphen c \<longleftrightarrow> in_class alnum c \<or> in_class [(CHR ''-'', CHR ''-'')] c"
    by (auto simp: in_class_def alnum_hyphen_def alnum_def)
  then show ?thesis by (simp add: in_class_alnum_iff in_class_single)
qed

lemma concat_singletons:
  "list_all (\<lambda>p. \<exists>c. p = [c] \<and> P c) ps \<Longrightarrow>
     length (concat ps) = length ps \<and> list_all P (concat ps)"
  by (induction ps) auto

lemma repeat_Class_iff:
  assumes "bounds_ok m n"
  shows "repeat (matches (Class rs)) m n s \<longleftrightarrow>
    m \<le> length s \<and> (case n of None \<Rightarrow> True | Some k \<Rightarrow> length s \<le> k) \<and>
    list_all (in_class rs) s"
proof
  assume "repeat (matches (Class rs)) m n s"
  with assms obtain ps where ps: "concat ps = s" and p: "pieces (matches (Class rs)) m n ps"
    by (auto simp: repeat_iff)
  from p have "list_all (\<lambda>p. \<exists>c. p = [c] \<and> in_class rs c) ps"
    unfolding pieces_def matches_Class_iff by simp
  then have "length (concat ps) = length ps \<and> list_all (in_class rs) (concat ps)"
    by (rule concat_singletons)
  with ps p show "m \<le> length s \<and> (case n of None \<Rightarrow> True | Some k \<Rightarrow> length s \<le> k) \<and>
    list_all (in_class rs) s"
    by (auto simp: pieces_def split: option.splits)
next
  assume r: "m \<le> length s \<and> (case n of None \<Rightarrow> True | Some k \<Rightarrow> length s \<le> k) \<and>
    list_all (in_class rs) s"
  let ?ps = "map (\<lambda>c. [c]) s"
  have c: "concat ?ps = s" by (induction s) auto
  have "list_all (matches (Class rs)) ?ps"
    using r by (auto simp: list_all_iff)
  with r have "pieces (matches (Class rs)) m n ?ps"
    by (simp add: pieces_def split: option.splits)
  then have "repeat (matches (Class rs)) m n (concat ?ps)"
    by (rule repeat_complete)
  then show "repeat (matches (Class rs)) m n s"
    unfolding c .
qed

lemma matches_digits:
  "matches (Repeat k (Some k) (Class digit)) s \<longleftrightarrow> length s = k \<and> list_all is_digit s"
  by (auto simp: repeat_Class_iff bounds_ok_def in_class_digit_iff [abs_def])

lemma dateRegex_iff: "matches dateRegex s \<longleftrightarrow> spec_date_shape s"
proof
  assume "matches dateRegex s"
  then obtain a b c where "s = a @ CHR ''-'' # b @ CHR ''-'' # c"
    and "length a = 4" "list_all is_digit a" "length b = 2" "list_all is_digit b"
    and "length c = 2" "list_all is_digit c"
    unfolding dateRegex_def matches_Seq_iff matches_Lit_iff matches_digits by auto
  then show "spec_date_shape s"
    by (simp add: spec_date_shape_def nth_append)
next
  assume d: "spec_date_shape s"
  then have len: "length s = 10" by (simp add: spec_date_shape_def)
  have "s = take 4 s @ s ! 4 # drop 5 s"
    using len id_take_nth_drop [of 4 s] by simp
  moreover have "drop 5 s = take 2 (drop 5 s) @ drop 5 s ! 2 # drop 8 s"
    using len id_take_nth_drop [of 2 "drop 5 s"] by simp
  moreover have "drop 5 s ! 2 = s ! 7" using len by simp
  ultimately have s: "s = take 4 s @ [CHR ''-''] @ take 2 (drop 5 s) @ [CHR ''-''] @ drop 8 s"
    using d by (simp add: spec_date_shape_def)
  have "matches (Repeat 4 (Some 4) (Class digit)) (take 4 s)"
    and "matches (Repeat 2 (Some 2) (Class digit)) (take 2 (drop 5 s))"
    and "matches (Repeat 2 (Some 2) (Class digit)) (drop 8 s)"
    using d len unfolding matches_digits by (simp_all add: spec_date_shape_def)
  then show "matches dateRegex s"
    unfolding dateRegex_def matches_Seq_iff matches_Lit_iff
    using s by blast
qed

lemma demo_parse: "date_parse demo_runtime ''2099-12-31'' = Some 4102358400000"
  by (simp add: demo_runtime_def)

lemma demo_now: "date_now demo_runtime = 1793491200000"
  by (simp add: demo_runtime_def)

lemma demo_date_shape: "spec_date_shape ''2099-12-31''"
  by (simp add: spec_date_shape_def is_digit_def)

subsection \<open>The expiration validator\<close>

text \<open>
  What the validator computes, for every runtime: it returns true if and only if the
  string has the shape four digits, dash, two digits, dash, two digits, and the runtime's
  date parser gives it a time value (not \<^verbatim>\<open>NaN\<close>), and that time value is strictly
  later than the clock's at validation. The string \<open>2025-1-5\<close> does not have the shape
  and is rejected whatever the parser makes of it, and a date whose time value equals the
  clock's is rejected. The only effect is one reading of the clock. The validator has no
  check of its own that the day exists in the month: that is left to the parser.
\<close>

lemma isValidExpirationDate_iff:
  "(fst (isValidExpirationDate rt s log) \<longleftrightarrow>
      spec_date_shape s \<and> (\<exists>t. date_parse rt s = Some t \<and> date_now rt < t)) \<and>
   snd (isValidExpirationDate rt s log) = log @ [ReadClock] \<and>
   \<not> spec_date_shape ''2025-1-5'' \<and>
   \<not> fst (isValidExpirationDate rt ''2025-1-5'' log) \<and>
   (date_parse rt s = Some (date_now rt) \<longrightarrow> \<not> fst (isValidExpirationDate rt s log))"
proof -
  have shape: "\<not> spec_date_shape ''2025-1-5''"
    by (simp add: spec_date_shape_def)
  have main: "fst (isValidExpirationDate rt x log) \<longleftrightarrow>
      spec_date_shape x \<and> (\<exists>t. date_parse rt x = Some t \<and> date_now rt < t)" for x
    by (cases "date_parse rt x")
      (auto simp: isValidExpirationDate_def Let_def regex_test_def dateRegex_iff)
  have log: "snd (isValidExpirationDate rt s log) = log @ [ReadClock]"
    by (simp add: isValidExpirationDate_def Let_def)
  from main [of s] main [of "''2025-1-5''"] shape log show ?thesis
    by auto
qed

lemma isValidExpirationDate_iff_demo:
  "fst (isValidExpirationDate demo_runtime ''2099-12-31'' []) \<and>
   spec_date_shape ''2099-12-31'' \<and>
   date_parse demo_runtime ''2099-12-31'' = Some 4102358400000 \<and>
   date_now demo_runtime < 4102358400000 \<and>
   date_parse (demo_runtime\<lparr>date_now := 4102358400000\<rparr>) ''2099-12-31'' =
     Some (date_now (demo_runtime\<lparr>date_now := 4102358400000\<rparr>)) \<and>
   \<not> fst (isValidExpirationDate (demo_runtime\<lparr>date_now := 4102358400000\<rparr>) ''2099-12-31'' [])"
proof -
  have a: "fst (isValidExpirationDate demo_runtime ''2099-12-31'' [])"
    using isValidExpirationDate_iff [of demo_runtime "''2099-12-31''" "[]"]
      demo_date_shape demo_parse demo_now
    by simp
  have p: "date_parse (demo_runtime\<lparr>date_now := 4102358400000\<rparr>) ''2099-12-31'' =
     Some (date_now (demo_runtime\<lparr>date_now := 4102358400000\<rparr>))"
    by (simp add: demo_parse)
  have b: "\<not> fst (isValidExpirationDate (demo_runtime\<lparr>date_now := 4102358400000\<rparr>) ''2099-12-31'' [])"
    using isValidExpirationDate_iff [of "demo_runtime\<lparr>date_now := 4102358400000\<rparr>"
        "''2099-12-31''" "[]"] p
    by blast
  from a b p demo_date_shape demo_parse demo_now show ?thesis by simp
qed

text \<open>
  C6. The claim that \<open>isValidExpirationDate\<close> returns true only for a string that
  parses to a real calendar date does not hold of the code. The code tests that the
  parsed date is not \<^verbatim>\<open>NaN\<close>, and on Node the parser rolls 30 February 2099 over to
  2 March 2099: the string \<open>2099-02-30\<close> has the required shape, is not a real calendar
  date, gets a time value later than the clock's, and the validator returns true for it;
  the generate flow then goes on to issue a key for that expiration. The other parts of
  the claim hold (\<open>isValidExpirationDate_iff\<close>): the strict shape is required, a date
  equal to the clock's is rejected.
\<close>

theorem isValidExpirationDate_accepts_feb_30:
  "spec_date_shape ''2099-02-30'' \<and>
   \<not> spec_calendar_date ''2099-02-30'' \<and>
   date_parse node_runtime ''2099-02-30'' = Some 4076092800000 \<and>
   date_now node_runtime < 4076092800000 \<and>
   fst (isValidExpirationDate node_runtime ''2099-02-30'' []) \<and>
   (\<exists>key. fst (generate node_runtime ''example.com'' ''2099-02-30'' []) = Inr key)"
proof -
  have shape: "spec_date_shape ''2099-02-30''"
    by (simp add: spec_date_shape_def is_digit_def)
  have m: "decimal (take 2 (drop 5 ''2099-02-30'')) = 2"
    and d: "decimal (drop 8 ''2099-02-30'') = 30"
    and y: "decimal (take 4 ''2099-02-30'') = 2099"
    by (simp_all add: decimal_def digit_value_def)
  have "days_in_month 2099 2 = 28"
    by (simp add: days_in_month_def leap_year_def)
  then have cal: "\<not> spec_calendar_date ''2099-02-30''"
    unfolding spec_calendar_date_def m d y by simp
  have parse: "date_parse node_runtime ''2099-02-30'' = Some 4076092800000"
    by (simp add: node_runtime_def)
  have now: "date_now node_runtime < 4076092800000"
    by (simp add: node_runtime_def demo_runtime_def)
  have "matches dateRegex ''2099-02-30''"
    using shape by (simp add: dateRegex_iff)
  with parse now have valid: "fst (isValidExpirationDate node_runtime ''2099-02-30'' [])"
    by (simp add: isValidExpirationDate_def Let_def regex_test_def)
  have "machine_id node_runtime = Inr ''abc123''"
    and "random_bytes node_runtime 16 = Some (map of_nat [0..<16])"
    by (simp_all add: node_runtime_def demo_runtime_def)
  with valid demo_domain_ok
  have "\<exists>key. fst (generate node_runtime ''example.com'' ''2099-02-30'' []) = Inr key"
    by (simp add: generate_cases)
  with shape cal parse now valid show ?thesis by blast
qed

subsection \<open>The domain pattern\<close>

lemma tl_pieces: "list_all (\<lambda>p. \<exists>t. p = d # t \<and> P t) ps \<Longrightarrow>
    map ((#) d) (map tl ps) = ps \<and> list_all P (map tl ps)"
  by (induction ps) auto

lemma matches_segment_iff:
  "matches (Seq (Lit CHR ''.'') (Repeat 2 None (Class alpha))) p \<longleftrightarrow>
   (\<exists>t. p = CHR ''.'' # t \<and> spec_segment t)"
  unfolding matches_Seq_iff matches_Lit_iff
  by (auto simp: repeat_Class_iff bounds_ok_def in_class_alpha_iff [abs_def] spec_segment_def)

lemma matches_segments_iff:
  "matches (Repeat 1 None (Seq (Lit CHR ''.'') (Repeat 2 None (Class alpha)))) s \<longleftrightarrow>
   (\<exists>ts. ts \<noteq> [] \<and> list_all spec_segment ts \<and> s = concat (map ((#) CHR ''.'') ts))"
proof
  let ?f = "matches (Seq (Lit CHR ''.'') (Repeat 2 None (Class alpha)))"
  assume "matches (Repeat 1 None (Seq (Lit CHR ''.'') (Repeat 2 None (Class alpha)))) s"
  then have "repeat ?f 1 None s" by simp
  then obtain ps where ps: "concat ps = s" and p: "pieces ?f 1 None ps"
    using repeat_sound [of ?f 1 None s] by (auto simp: bounds_ok_def)
  from p have "list_all (\<lambda>p. \<exists>t. p = CHR ''.'' # t \<and> spec_segment t) ps" and ne: "ps \<noteq> []"
    unfolding pieces_def matches_segment_iff by auto
  then have "map ((#) CHR ''.'') (map tl ps) = ps \<and> list_all spec_segment (map tl ps)"
    using tl_pieces [of "CHR ''.''" spec_segment ps] by blast
  with ps ne have "map tl ps \<noteq> [] \<and> list_all spec_segment (map tl ps) \<and>
      s = concat (map ((#) CHR ''.'') (map tl ps))"
    by simp
  then show "\<exists>ts. ts \<noteq> [] \<and> list_all spec_segment ts \<and> s = concat (map ((#) CHR ''.'') ts)"
    by blast
next
  let ?f = "matches (Seq (Lit CHR ''.'') (Repeat 2 None (Class alpha)))"
  assume "\<exists>ts. ts \<noteq> [] \<and> list_all spec_segment ts \<and> s = concat (map ((#) CHR ''.'') ts)"
  then obtain ts where ne: "ts \<noteq> []" and seg: "list_all spec_segment ts"
    and s: "s = concat (map ((#) CHR ''.'') ts)"
    by blast
  have "list_all ?f (map ((#) CHR ''.'') ts)"
    using seg unfolding matches_segment_iff by (simp add: list_all_iff)
  moreover have "1 \<le> length (map ((#) CHR ''.'') ts)"
    using ne by (cases ts) auto
  ultimately have "pieces ?f 1 None (map ((#) CHR ''.'') ts)"
    by (simp add: pieces_def)
  then have "repeat ?f 1 None (concat (map ((#) CHR ''.'') ts))"
    by (rule repeat_complete)
  then show "matches (Repeat 1 None (Seq (Lit CHR ''.'') (Repeat 2 None (Class alpha)))) s"
    unfolding s by simp
qed

lemma spec_label_iff:
  "spec_label x \<longleftrightarrow>
   (\<exists>a l b. x = a # l @ [b] \<and> is_alnum a \<and> is_alnum b \<and> 1 \<le> length l \<and> length l \<le> 61 \<and>
      list_all (\<lambda>c. is_alnum c \<or> c = CHR ''-'') l)"
proof
  assume x: "spec_label x"
  then have len: "3 \<le> length x" by (simp add: spec_label_def)
  then obtain a y where xa: "x = a # y" by (cases x) auto
  with len have "y \<noteq> []" by auto
  then have y: "y = butlast y @ [last y]" by simp
  have "x = a # butlast y @ [last y]" using xa y by simp
  moreover have "last x = last y" using xa \<open>y \<noteq> []\<close> by simp
  ultimately have "x = a # butlast y @ [last y] \<and> is_alnum a \<and> is_alnum (last y) \<and>
      1 \<le> length (butlast y) \<and> length (butlast y) \<le> 61 \<and>
      list_all (\<lambda>c. is_alnum c \<or> c = CHR ''-'') (butlast y)"
    using x xa by (auto simp: spec_label_def)
  then show "\<exists>a l b. x = a # l @ [b] \<and> is_alnum a \<and> is_alnum b \<and> 1 \<le> length l \<and>
      length l \<le> 61 \<and> list_all (\<lambda>c. is_alnum c \<or> c = CHR ''-'') l"
    by blast
next
  assume "\<exists>a l b. x = a # l @ [b] \<and> is_alnum a \<and> is_alnum b \<and> 1 \<le> length l \<and>
      length l \<le> 61 \<and> list_all (\<lambda>c. is_alnum c \<or> c = CHR ''-'') l"
  then show "spec_label x"
    by (auto simp: spec_label_def)
qed

lemma matches_middle_iff:
  "matches (Repeat 1 (Some 61) (Class alnum_hyphen)) l \<longleftrightarrow>
   1 \<le> length l \<and> length l \<le> 61 \<and> list_all (\<lambda>c. is_alnum c \<or> c = CHR ''-'') l"
  by (simp add: repeat_Class_iff bounds_ok_def in_class_alnum_hyphen_iff [abs_def])

lemma matches_domainRegex_iff:
  "matches domainRegex d \<longleftrightarrow>
   (\<exists>l ts. d = l @ concat (map ((#) CHR ''.'') ts) \<and> spec_label l \<and> ts \<noteq> [] \<and>
      list_all spec_segment ts)"
proof -
  have "matches domainRegex d \<longleftrightarrow>
    (\<exists>a l b t. d = [a] @ l @ [b] @ t \<and> is_alnum a \<and> is_alnum b \<and>
       1 \<le> length l \<and> length l \<le> 61 \<and> list_all (\<lambda>c. is_alnum c \<or> c = CHR ''-'') l \<and>
       (\<exists>ts. ts \<noteq> [] \<and> list_all spec_segment ts \<and> t = concat (map ((#) CHR ''.'') ts)))"
    unfolding domainRegex_def matches_Seq_iff matches_middle_iff matches_Class_iff
      matches_segments_iff in_class_alnum_iff
    by blast
  also have "\<dots> \<longleftrightarrow> (\<exists>l ts. d = l @ concat (map ((#) CHR ''.'') ts) \<and> spec_label l \<and> ts \<noteq> [] \<and>
      list_all spec_segment ts)"
  proof
    assume "\<exists>a l b t. d = [a] @ l @ [b] @ t \<and> is_alnum a \<and> is_alnum b \<and>
       1 \<le> length l \<and> length l \<le> 61 \<and> list_all (\<lambda>c. is_alnum c \<or> c = CHR ''-'') l \<and>
       (\<exists>ts. ts \<noteq> [] \<and> list_all spec_segment ts \<and> t = concat (map ((#) CHR ''.'') ts))"
    then obtain a l b ts where d: "d = [a] @ l @ [b] @ concat (map ((#) CHR ''.'') ts)"
      and l: "is_alnum a" "is_alnum b" "1 \<le> length l" "length l \<le> 61"
        "list_all (\<lambda>c. is_alnum c \<or> c = CHR ''-'') l"
      and ts: "ts \<noteq> []" "list_all spec_segment ts"
      by blast
    from l have "spec_label (a # l @ [b])"
      unfolding spec_label_iff by blast
    moreover have "d = (a # l @ [b]) @ concat (map ((#) CHR ''.'') ts)"
      using d by simp
    ultimately show "\<exists>l ts. d = l @ concat (map ((#) CHR ''.'') ts) \<and> spec_label l \<and> ts \<noteq> [] \<and>
      list_all spec_segment ts"
      using ts by blast
  next
    assume "\<exists>l ts. d = l @ concat (map ((#) CHR ''.'') ts) \<and> spec_label l \<and> ts \<noteq> [] \<and>
      list_all spec_segment ts"
    then obtain x ts where d: "d = x @ concat (map ((#) CHR ''.'') ts)" and x: "spec_label x"
      and ts: "ts \<noteq> []" "list_all spec_segment ts"
      by blast
    from x obtain a l b where xa: "x = a # l @ [b]"
      and l: "is_alnum a" "is_alnum b" "1 \<le> length l" "length l \<le> 61"
        "list_all (\<lambda>c. is_alnum c \<or> c = CHR ''-'') l"
      unfolding spec_label_iff by blast
    have "d = [a] @ l @ [b] @ concat (map ((#) CHR ''.'') ts)"
      using d xa by simp
    with l ts show "\<exists>a l b t. d = [a] @ l @ [b] @ t \<and> is_alnum a \<and> is_alnum b \<and>
       1 \<le> length l \<and> length l \<le> 61 \<and> list_all (\<lambda>c. is_alnum c \<or> c = CHR ''-'') l \<and>
       (\<exists>ts. ts \<noteq> [] \<and> list_all spec_segment ts \<and> t = concat (map ((#) CHR ''.'') ts))"
      by blast
  qed
  finally show ?thesis .
qed

subsection \<open>The domain validator and the grammar of the specification\<close>

lemma str_split_joined:
  "d \<notin> set l \<Longrightarrow> list_all (\<lambda>t. d \<notin> set t) ts \<Longrightarrow>
     str_split d (l @ concat (map ((#) d) ts)) = l # ts"
proof (induction ts arbitrary: l)
  case Nil
  then show ?case by (simp add: str_split_no_sep)
next
  case (Cons t ts)
  then have "str_split d (t @ concat (map ((#) d) ts)) = t # ts" by simp
  with Cons.prems(1) show ?case by (simp add: str_split_append)
qed

lemma str_split_join:
  "str_split d s = l # ts \<Longrightarrow> s = l @ concat (map ((#) d) ts)"
proof (induction s arbitrary: l ts)
  case Nil
  then show ?case by simp
next
  case (Cons c s)
  show ?case
  proof (cases "c = d")
    case True
    with Cons.prems have "l = []" "str_split d s = ts" by simp_all
    then obtain l' ts' where "str_split d s = l' # ts'" "ts = l' # ts'"
      using str_split_nonempty [of d s] by (cases ts) auto
    with Cons.IH [of l' ts'] True \<open>l = []\<close> show ?thesis by simp
  next
    case False
    obtain l' ts' where s: "str_split d s = l' # ts'"
      using str_split_nonempty [of d s] by (cases "str_split d s") auto
    with Cons.prems False have "l = c # l'" "ts = ts'" by simp_all
    with Cons.IH [OF s] show ?thesis by simp
  qed
qed

lemma special_chars:
  "\<not> is_alnum CHR ''.''" "\<not> is_alnum CHR ''-''" "\<not> is_alnum CHR ''_''" "\<not> is_alnum CHR '':''"
  "\<not> is_alpha CHR ''.''" "\<not> is_alpha CHR ''-''" "\<not> is_alpha CHR ''_''" "\<not> is_alpha CHR '':''"
  by (simp_all add: is_alnum_def is_alpha_def is_digit_def)

lemma alpha_not_digit: "is_alpha c \<Longrightarrow> \<not> is_digit c"
  by (auto simp: is_alpha_def is_digit_def)

lemma spec_label_chars:
  "spec_label l \<Longrightarrow> c \<in> set l \<Longrightarrow> is_alnum c \<or> c = CHR ''-''"
  unfolding spec_label_iff by (auto simp: list_all_iff)

lemma spec_segment_chars: "spec_segment t \<Longrightarrow> c \<in> set t \<Longrightarrow> is_alpha c"
  by (auto simp: spec_segment_def list_all_iff)

lemma spec_label_no_dot: "spec_label l \<Longrightarrow> CHR ''.'' \<notin> set l"
  using spec_label_chars [of l "CHR ''.''"] special_chars by auto

lemma spec_segment_no_dot: "spec_segment t \<Longrightarrow> CHR ''.'' \<notin> set t"
  using spec_segment_chars [of t "CHR ''.''"] special_chars by auto

lemma isValidDomain_iff: "isValidDomain d \<longleftrightarrow> spec_domain d"
proof
  assume "isValidDomain d"
  then obtain l ts where d: "d = l @ concat (map ((#) CHR ''.'') ts)" and l: "spec_label l"
    and ts: "ts \<noteq> []" "list_all spec_segment ts"
    by (auto simp: isValidDomain_def regex_test_def matches_domainRegex_iff)
  have "list_all (\<lambda>t. CHR ''.'' \<notin> set t) ts"
    using ts(2) by (auto simp: list_all_iff spec_segment_no_dot)
  with l have "str_split CHR ''.'' d = l # ts"
    unfolding d by (intro str_split_joined spec_label_no_dot)
  with l ts show "spec_domain d"
    by (simp add: spec_domain_def)
next
  assume "spec_domain d"
  then obtain l ts where s: "str_split CHR ''.'' d = l # ts" and l: "spec_label l"
    and ts: "ts \<noteq> []" "list_all spec_segment ts"
    by (auto simp: spec_domain_def split: list.splits)
  from s have "d = l @ concat (map ((#) CHR ''.'') ts)"
    by (rule str_split_join)
  with l ts show "isValidDomain d"
    unfolding isValidDomain_def regex_test_def matches_domainRegex_iff by blast
qed

lemma valid_domain_parts:
  assumes "isValidDomain d"
  obtains l ts t where "str_split CHR ''.'' d = l # ts @ [t]"
    and "d = l @ concat (map ((#) CHR ''.'') (ts @ [t]))"
    and "spec_label l" and "list_all spec_segment ts" and "spec_segment t"
proof -
  from assms obtain l us where s: "str_split CHR ''.'' d = l # us" and l: "spec_label l"
    and us: "us \<noteq> []" "list_all spec_segment us"
    by (auto simp: isValidDomain_iff spec_domain_def split: list.splits)
  from us(1) have u: "us = butlast us @ [last us]" by simp
  have "list_all spec_segment (butlast us)" "spec_segment (last us)"
    using us by (auto simp: list_all_iff dest: in_set_butlastD)
  moreover have "str_split CHR ''.'' d = l # butlast us @ [last us]"
    using s u by simp
  moreover have "d = l @ concat (map ((#) CHR ''.'') (butlast us @ [last us]))"
    using str_split_join [OF s] u by simp
  ultimately show ?thesis using l that by blast
qed

lemma valid_domain_chars:
  assumes "isValidDomain d" and "c \<in> set d"
  shows "is_alnum c \<or> c = CHR ''-'' \<or> c = CHR ''.''"
proof -
  from assms(1) obtain l ts t where d: "d = l @ concat (map ((#) CHR ''.'') (ts @ [t]))"
    and l: "spec_label l" and ts: "list_all spec_segment ts" and t: "spec_segment t"
    by (rule valid_domain_parts)
  from assms(2) d have "c \<in> set l \<or> c = CHR ''.'' \<or> (\<exists>u\<in>set ts. c \<in> set u) \<or> c \<in> set t"
    by (auto split: if_splits)
  then show ?thesis
    using spec_label_chars [OF l] spec_segment_chars [OF t] ts
    by (auto simp: list_all_iff is_alnum_def dest: spec_segment_chars)
qed

lemma valid_domain_first:
  assumes "isValidDomain d"
  shows "d \<noteq> [] \<and> is_alnum (hd d) \<and> is_alnum (last (hd (str_split CHR ''.'' d)))"
proof -
  from assms obtain l ts t where s: "str_split CHR ''.'' d = l # ts @ [t]"
    and d: "d = l @ concat (map ((#) CHR ''.'') (ts @ [t]))"
    and l: "spec_label l"
    by (rule valid_domain_parts)
  from l have "l \<noteq> []" "is_alnum (hd l)" "is_alnum (last l)"
    by (auto simp: spec_label_def)
  with s d show ?thesis by (cases l) auto
qed

lemma valid_domain_last:
  assumes "isValidDomain d"
  shows "is_alpha (last d)"
proof -
  from assms obtain l ts t where d: "d = l @ concat (map ((#) CHR ''.'') (ts @ [t]))"
    and t: "spec_segment t"
    by (rule valid_domain_parts)
  from t have "t \<noteq> []" by (auto simp: spec_segment_def)
  then have "last d = last t" unfolding d by simp
  moreover have "last t \<in> set t" using \<open>t \<noteq> []\<close> by simp
  ultimately show ?thesis using spec_segment_chars [OF t] by simp
qed

lemma valid_domain_part_lengths:
  assumes "isValidDomain d" and "p \<in> set (str_split CHR ''.'' d)"
  shows "2 \<le> length p"
proof -
  from assms(1) obtain l ts t where s: "str_split CHR ''.'' d = l # ts @ [t]"
    and l: "spec_label l" and ts: "list_all spec_segment ts" and t: "spec_segment t"
    by (rule valid_domain_parts)
  from assms(2) s have "p = l \<or> p \<in> set ts \<or> p = t" by auto
  then show ?thesis
    using l ts t by (auto simp: spec_label_def spec_segment_def list_all_iff)
qed

text \<open>
  C7. \<open>isValidDomain\<close> returns true exactly for the strings that consist of a first
  label that starts and ends with an alphanumeric character, has only alphanumeric
  characters and hyphens in between and is 3 to 63 characters long, followed by one or
  more segments, each a dot and then two or more alphabetic characters. It returns false
  for a string that starts or ends with a hyphen or whose first label ends with one, for
  a string with an underscore, for an IP literal (only digits and dots, or containing a
  colon), for a string without a dot (no TLD), and for a string with a label of fewer
  than two characters.
\<close>

theorem isValidDomain_grammar:
  "(isValidDomain d \<longleftrightarrow> spec_domain d) \<and>
   (hd d = CHR ''-'' \<longrightarrow> \<not> isValidDomain d) \<and>
   (last d = CHR ''-'' \<longrightarrow> \<not> isValidDomain d) \<and>
   (last (hd (str_split CHR ''.'' d)) = CHR ''-'' \<longrightarrow> \<not> isValidDomain d) \<and>
   (CHR ''_'' \<in> set d \<longrightarrow> \<not> isValidDomain d) \<and>
   (list_all (\<lambda>c. is_digit c \<or> c = CHR ''.'') d \<longrightarrow> \<not> isValidDomain d) \<and>
   (CHR '':'' \<in> set d \<longrightarrow> \<not> isValidDomain d) \<and>
   (CHR ''.'' \<notin> set d \<longrightarrow> \<not> isValidDomain d) \<and>
   (list_ex (\<lambda>p. length p < 2) (str_split CHR ''.'' d) \<longrightarrow> \<not> isValidDomain d)"
proof -
  have lead: "hd d = CHR ''-'' \<longrightarrow> \<not> isValidDomain d"
    using valid_domain_first [of d] special_chars by auto
  have trail: "last d = CHR ''-'' \<longrightarrow> \<not> isValidDomain d"
    using valid_domain_last [of d] special_chars by auto
  have label: "last (hd (str_split CHR ''.'' d)) = CHR ''-'' \<longrightarrow> \<not> isValidDomain d"
    using valid_domain_first [of d] special_chars by auto
  have under: "CHR ''_'' \<in> set d \<longrightarrow> \<not> isValidDomain d"
    using valid_domain_chars [of d "CHR ''_''"] special_chars by auto
  have colon: "CHR '':'' \<in> set d \<longrightarrow> \<not> isValidDomain d"
    using valid_domain_chars [of d "CHR '':''"] special_chars by auto
  have ip: "list_all (\<lambda>c. is_digit c \<or> c = CHR ''.'') d \<longrightarrow> \<not> isValidDomain d"
  proof (intro impI notI)
    assume all: "list_all (\<lambda>c. is_digit c \<or> c = CHR ''.'') d" and v: "isValidDomain d"
    from v have "d \<noteq> []" by (simp add: valid_domain_first)
    then have "last d \<in> set d" by simp
    with all have "is_digit (last d) \<or> last d = CHR ''.''" by (simp add: list_all_iff)
    moreover have "is_alpha (last d)" using v by (rule valid_domain_last)
    ultimately show False using alpha_not_digit special_chars by auto
  qed
  have tld: "CHR ''.'' \<notin> set d \<longrightarrow> \<not> isValidDomain d"
    by (auto simp: isValidDomain_iff spec_domain_def str_split_no_sep)
  have short: "list_ex (\<lambda>p. length p < 2) (str_split CHR ''.'' d) \<longrightarrow> \<not> isValidDomain d"
    using valid_domain_part_lengths [of d] by (fastforce simp: list_ex_iff)
  from isValidDomain_iff [of d] lead trail label under ip colon tld short show ?thesis
    by blast
qed

lemma demo_spec_domain: "spec_domain ''example.com''"
  by (simp add: spec_domain_def spec_label_def spec_segment_def is_alnum_def is_alpha_def
      is_digit_def)

lemma demo_spec_domain_multi: "spec_domain ''my-shop1.co.uk''"
  by (simp add: spec_domain_def spec_label_def spec_segment_def is_alnum_def is_alpha_def
      is_digit_def)

theorem isValidDomain_grammar_witness:
  "isValidDomain ''example.com'' \<and> spec_domain ''example.com'' \<and>
   isValidDomain ''my-shop1.co.uk'' \<and>
   hd ''-example.com'' = CHR ''-'' \<and> \<not> isValidDomain ''-example.com'' \<and>
   last ''example.com-'' = CHR ''-'' \<and> \<not> isValidDomain ''example.com-'' \<and>
   last (hd (str_split CHR ''.'' ''example-.com'')) = CHR ''-'' \<and> \<not> isValidDomain ''example-.com'' \<and>
   CHR ''_'' \<in> set ''my_shop.com'' \<and> \<not> isValidDomain ''my_shop.com'' \<and>
   list_all (\<lambda>c. is_digit c \<or> c = CHR ''.'') ''192.168.1.1'' \<and> \<not> isValidDomain ''192.168.1.1'' \<and>
   CHR '':'' \<in> set ''fe80::1'' \<and> \<not> isValidDomain ''fe80::1'' \<and>
   CHR ''.'' \<notin> set ''localhost'' \<and> \<not> isValidDomain ''localhost'' \<and>
   list_ex (\<lambda>p. length p < 2) (str_split CHR ''.'' ''example.c'') \<and> \<not> isValidDomain ''example.c''"
proof -
  have a: "isValidDomain ''example.com''"
    using isValidDomain_grammar [of "''example.com''"] demo_spec_domain by blast
  have a2: "isValidDomain ''my-shop1.co.uk''"
    using isValidDomain_grammar [of "''my-shop1.co.uk''"] demo_spec_domain_multi by blast
  have b1: "hd ''-example.com'' = CHR ''-''" by simp
  have b: "\<not> isValidDomain ''-example.com''"
    using isValidDomain_grammar [of "''-example.com''"] b1 by blast
  have c1: "last ''example.com-'' = CHR ''-''" by simp
  have c: "\<not> isValidDomain ''example.com-''"
    using isValidDomain_grammar [of "''example.com-''"] c1 by blast
  have d1: "last (hd (str_split CHR ''.'' ''example-.com'')) = CHR ''-''" by simp
  have d: "\<not> isValidDomain ''example-.com''"
    using isValidDomain_grammar [of "''example-.com''"] d1 by blast
  have e1: "CHR ''_'' \<in> set ''my_shop.com''" by simp
  have e: "\<not> isValidDomain ''my_shop.com''"
    using isValidDomain_grammar [of "''my_shop.com''"] e1 by blast
  have f1: "list_all (\<lambda>c. is_digit c \<or> c = CHR ''.'') ''192.168.1.1''"
    by (simp add: is_digit_def)
  have f: "\<not> isValidDomain ''192.168.1.1''"
    using isValidDomain_grammar [of "''192.168.1.1''"] f1 by blast
  have g1: "CHR '':'' \<in> set ''fe80::1''" by simp
  have g: "\<not> isValidDomain ''fe80::1''"
    using isValidDomain_grammar [of "''fe80::1''"] g1 by blast
  have h1: "CHR ''.'' \<notin> set ''localhost''" by simp
  have h: "\<not> isValidDomain ''localhost''"
    using isValidDomain_grammar [of "''localhost''"] h1 by blast
  have i1: "list_ex (\<lambda>p. length p < 2) (str_split CHR ''.'' ''example.c'')" by simp
  have i: "\<not> isValidDomain ''example.c''"
    using isValidDomain_grammar [of "''example.c''"] i1 by blast
  from a a2 b1 b c1 c d1 d e1 e f1 f g1 g h1 h i1 i demo_spec_domain show ?thesis
    by blast
qed

subsection \<open>Keys generated from different salts\<close>

lemma hexdigit_inj:
  assumes "n < 16" "m < 16" "hexdigit n = hexdigit m"
  shows "n = m"
proof -
  have "distinct hexchars" by (simp add: hexchars_def)
  moreover have "n < length hexchars" "m < length hexchars"
    using assms by (simp_all add: hexchars_def)
  ultimately show ?thesis
    using assms(3) by (simp add: hexdigit_def nth_eq_iff_index_eq)
qed

lemma hex_byte_inj:
  assumes "hex_byte a = hex_byte b"
  shows "a = b"
proof -
  have a: "unat a < 256" using unsigned_less [of a] by simp
  have b: "unat b < 256" using unsigned_less [of b] by simp
  from assms have "hexdigit (unat a div 16) = hexdigit (unat b div 16)"
    and "hexdigit (unat a mod 16) = hexdigit (unat b mod 16)"
    by (simp_all add: hex_byte_def)
  with a b have "unat a div 16 = unat b div 16" "unat a mod 16 = unat b mod 16"
    by (auto intro!: hexdigit_inj)
  then have "unat a = unat b"
    by (metis div_mult_mod_eq)
  then show ?thesis by (simp add: word_unat_eq_iff)
qed

lemma toHex_inj: "toHex a = toHex b \<Longrightarrow> a = b"
proof (induction a arbitrary: b)
  case Nil
  then have "length (toHex b) = 0" by (simp add: toHex_def)
  then show ?case by (simp add: length_toHex)
next
  case (Cons x a)
  then have "length (toHex b) = 2 * Suc (length a)" by (metis length_toHex length_Cons)
  then obtain y b' where b: "b = y # b'" by (cases b) (auto simp: length_toHex)
  from Cons.prems b have "hex_byte x @ toHex a = hex_byte y @ toHex b'"
    by (simp add: toHex_def)
  moreover have "length (hex_byte x) = length (hex_byte y)" by (simp add: hex_byte_def)
  ultimately have "hex_byte x = hex_byte y" "toHex a = toHex b'" by simp_all
  with Cons.IH b show ?case by (simp add: hex_byte_inj)
qed

text \<open>
  Two runs of \<open>generate\<close> on the same domain and expiration, under runtimes that differ
  only in the bytes their random source returns: the salt components differ, the keys
  differ, and each key passes verification. Whether the digest components differ as well
  depends on SHA-256 having no collision on the two inputs, which is not a property of
  this file.
\<close>

lemma distinct_salts_distinct_keys:
  assumes "isValidDomain domain" and "fst (isValidExpirationDate rt expire log)"
    and "machine_id rt = Inr hardwareId"
    and "salt1 \<noteq> salt2"
  shows "\<exists>key1 key2.
    fst (generate (rt\<lparr>random_bytes := \<lambda>n. Some salt1\<rparr>) domain expire log) = Inr key1 \<and>
    fst (generate (rt\<lparr>random_bytes := \<lambda>n. Some salt2\<rparr>) domain expire log) = Inr key2 \<and>
    key1 \<noteq> key2 \<and>
    str_split CHR ''.'' key1 ! 0 = toHex salt1 \<and> str_split CHR ''.'' key2 ! 0 = toHex salt2 \<and>
    toHex salt1 \<noteq> toHex salt2 \<and>
    (\<exists>p. fst (verify rt key1 log') = Inr p) \<and> (\<exists>p. fst (verify rt key2 log') = Inr p)"
proof -
  let ?r1 = "rt\<lparr>random_bytes := \<lambda>n. Some salt1\<rparr>"
  let ?r2 = "rt\<lparr>random_bytes := \<lambda>n. Some salt2\<rparr>"
  have v1: "fst (isValidExpirationDate ?r1 expire log)"
    and v2: "fst (isValidExpirationDate ?r2 expire log)"
    using assms(2) by (simp_all add: isValidExpirationDate_def Let_def)
  obtain key1 where k1: "fst (generate ?r1 domain expire log) = Inr key1"
    using assms(1,3) v1 by (simp add: generate_cases)
  obtain key2 where k2: "fst (generate ?r2 domain expire log) = Inr key2"
    using assms(1,3) v2 by (simp add: generate_cases)
  obtain a1 b1 c1 where p1: "str_split CHR ''.'' key1 = [a1, b1, c1]"
    and w1: "fst (verify ?r1 key1 log') = Inr (a1, b1, c1)"
    and a1: "\<exists>bs. random_bytes ?r1 16 = Some bs \<and> a1 = toHex bs"
    using k1 by (rule generated_key_parts)
  obtain a2 b2 c2 where p2: "str_split CHR ''.'' key2 = [a2, b2, c2]"
    and w2: "fst (verify ?r2 key2 log') = Inr (a2, b2, c2)"
    and a2: "\<exists>bs. random_bytes ?r2 16 = Some bs \<and> a2 = toHex bs"
    using k2 by (rule generated_key_parts)
  have f1: "str_split CHR ''.'' key1 ! 0 = toHex salt1" using p1 a1 by auto
  have f2: "str_split CHR ''.'' key2 ! 0 = toHex salt2" using p2 a2 by auto
  have ne: "toHex salt1 \<noteq> toHex salt2"
    using assms(4) toHex_inj by blast
  have kne: "key1 \<noteq> key2" using f1 f2 ne by auto
  have same: "verify (rt\<lparr>random_bytes := g\<rparr>) k l = verify rt k l" for g k l
    by (simp add: verify_cases calculateChecksum_def)
  from w1 w2 have v1': "\<exists>p. fst (verify rt key1 log') = Inr p"
    and v2': "\<exists>p. fst (verify rt key2 log') = Inr p"
    by (simp_all add: same)
  from k1 k2 kne f1 f2 ne v1' v2' show ?thesis by blast
qed

end
